theory Spec2Isabelle
  imports Main
begin

section \<open>Values, questions and answers\<close>

text \<open>
  The application is a React component \<^verbatim>\<open>App\<close> whose session state is held in
  \<^verbatim>\<open>useState\<close> cells (questions, basket, phase, answers, tab, selectedIP) and whose
  derived views (\<^verbatim>\<open>perIPCounts\<close>, \<^verbatim>\<open>scoreSummary\<close>) are recomputed from those cells.
  Every handler is modelled as a function from the state of the current render to
  the state of the next one. The repository holds the application in two revisions;
  this first part follows the earlier one (\<^verbatim>\<open>src/unnamed/part_000\<close>), the later one
  (\<^verbatim>\<open>src/tailwind.config.js\<close>) has a section of its own below.

  Modelling decisions, all taken from the source:
  \<^item> JavaScript numbers are modelled as \<^typ>\<open>int\<close>: the only numbers the handlers ever
    store are option indices and the integer scores \<^verbatim>\<open>0 .. LEVEL_POINTS[level]\<close>
    offered by \<^verbatim>\<open>ManualBlock\<close>, so no rounding and no \<^verbatim>\<open>NaN\<close> input arises.
  \<^item> A field that may be absent from an object is a \<open>jsval\<close>, with \<open>JUndefined\<close>
    for an absent field; strict equality \<^verbatim>\<open>===\<close> on these primitive values is equality.
  \<^item> \<^verbatim>\<open>level\<close> ranges over the four keys of \<^verbatim>\<open>LEVEL_POINTS\<close> (the only values the
    editor's select offers), \<^verbatim>\<open>type\<close> over the \<^verbatim>\<open>QType\<close> typedef plus the legacy
    \<^verbatim>\<open>"info"\<close> kind that the renderers filter out.
  \<^item> Plain objects used as dictionaries (\<^verbatim>\<open>perIPCounts\<close>, \<^verbatim>\<open>byIP\<close>, \<^verbatim>\<open>byLevel\<close>,
    \<^verbatim>\<open>answers\<close>) are association lists in insertion order, which is the order
    \<^verbatim>\<open>Object.entries\<close> shows. In this first part a topic name is an ordinary key; what
    happens for a name that \<^verbatim>\<open>Object.prototype\<close> already defines is modelled in the
    part on the later revision (\<open>tally_get\<close>, \<open>tally_set\<close>).
  \<^item> Reading a property of \<^verbatim>\<open>undefined\<close> throws a \<^verbatim>\<open>TypeError\<close>; every such read
    goes through \<open>get_prop\<close>, so that a missing guard shows up as a fault.
\<close>

datatype jsval = JUndefined | JNull | JBoolean bool | JNumber int | JString string

fun is_number :: "jsval \<Rightarrow> bool" where
  "is_number (JNumber n) = True"
| "is_number v = False"

fun number_of :: "jsval \<Rightarrow> int" where
  "number_of (JNumber n) = n"
| "number_of v = 0"

datatype qtype = Mcq | Fill | Short | Reading | Info

datatype level = La | Lb | Lc | Ls

fun LEVEL_POINTS :: "level \<Rightarrow> int" where
  "LEVEL_POINTS La = 3"
| "LEVEL_POINTS Lb = 2"
| "LEVEL_POINTS Lc = 1"
| "LEVEL_POINTS Ls = 5"

record question =
  qid :: string
  ip :: string
  qtype :: qtype
  level :: level
  options :: "string list"
  correctIndex :: jsval

record answer =
  choiceIndex :: jsval
  manualScore :: jsval

datatype js_fault = TypeError | NaNValue

datatype phase = Pick | Running | Confirm | Finished

datatype tab = Welcome | Quiz | Admin

text \<open>
  The three messages the session handlers pass to \<^verbatim>\<open>alert\<close>: "choose questions
  first" (\<^verbatim>\<open>startQuiz\<close>), "total limit of 5 reached" and "this IP already has 2"
  (\<^verbatim>\<open>toggleBasket\<close>).
\<close>

datatype alert = AlertChooseFirst | AlertTotalCap | AlertIPCap

subsection \<open>Property reads, sequencing, dictionaries\<close>

definition get_prop :: "'a option \<Rightarrow> ('a \<Rightarrow> 'b) \<Rightarrow> js_fault + 'b" where
  "get_prop v f = (case v of None \<Rightarrow> Inl TypeError | Some x \<Rightarrow> Inr (f x))"

definition bind_js :: "js_fault + 'a \<Rightarrow> ('a \<Rightarrow> js_fault + 'b) \<Rightarrow> js_fault + 'b" where
  "bind_js r k = (case r of Inl e \<Rightarrow> Inl e | Inr v \<Rightarrow> k v)"

definition obj_get :: "('k \<times> 'v) list \<Rightarrow> 'k \<Rightarrow> 'v option" where
  "obj_get m k = map_of m k"

fun obj_set :: "'k \<Rightarrow> 'v \<Rightarrow> ('k \<times> 'v) list \<Rightarrow> ('k \<times> 'v) list" where
  "obj_set k v [] = [(k, v)]"
| "obj_set k v (e # es) = (if fst e = k then (k, v) # es else e # obj_set k v es)"

text \<open>\<^verbatim>\<open>x || 0\<close> for a count or score that is a number or \<^verbatim>\<open>undefined\<close>.\<close>

fun or_zero :: "'n::zero option \<Rightarrow> 'n" where
  "or_zero None = 0"
| "or_zero (Some n) = n"

definition find_question :: "'q question_scheme list \<Rightarrow> string \<Rightarrow> 'q question_scheme option" where
  "find_question qs i = List.find (\<lambda>x. qid x = i) qs"

section \<open>Basket counting\<close>

text \<open>
  \<^verbatim>\<open>perIPCounts\<close>: for each basket id, look the question up, skip it when absent,
  otherwise \<^verbatim>\<open>m[q.ip] = (m[q.ip] || 0) + 1\<close>.
\<close>

definition perIP_step ::
  "'q question_scheme list \<Rightarrow> (string \<times> nat) list \<Rightarrow> string \<Rightarrow> js_fault + (string \<times> nat) list" where
  "perIP_step qs m i =
     (let q = find_question qs i in
      if q = None then Inr m
      else bind_js (get_prop q ip) (\<lambda>t. Inr (obj_set t (or_zero (obj_get m t) + 1) m)))"

fun perIP_loop ::
  "'q question_scheme list \<Rightarrow> (string \<times> nat) list \<Rightarrow> string list \<Rightarrow> js_fault + (string \<times> nat) list" where
  "perIP_loop qs m [] = Inr m"
| "perIP_loop qs m (i # rest) =
     (case perIP_step qs m i of Inl e \<Rightarrow> Inl e | Inr m' \<Rightarrow> perIP_loop qs m' rest)"

definition perIPCounts ::
  "'q question_scheme list \<Rightarrow> string list \<Rightarrow> js_fault + (string \<times> nat) list" where
  "perIPCounts qs bs = perIP_loop qs [] bs"

section \<open>Scoring\<close>

record summary =
  total_pts :: int
  byIP :: "(string \<times> int) list"
  byLevel :: "(level \<times> int) list"

text \<open>
  The body of the \<^verbatim>\<open>scoreSummary\<close> loop for a question that was found. The
  multiple-choice test is \<^verbatim>\<open>ans && ans.choiceIndex === q.correctIndex\<close>, the manual one
  \<^verbatim>\<open>ans && typeof ans.manualScore === "number"\<close>.
\<close>

definition gained_for ::
  "'q question_scheme option \<Rightarrow> 'a answer_scheme option \<Rightarrow> js_fault + int" where
  "gained_for q ans =
     bind_js (get_prop q qtype) (\<lambda>ty.
       if ty = Mcq then
         bind_js (if ans \<noteq> None
                  then bind_js (get_prop ans choiceIndex) (\<lambda>c.
                       bind_js (get_prop q correctIndex) (\<lambda>k. Inr (c = k)))
                  else Inr False)
           (\<lambda>hit. if hit then bind_js (get_prop q level) (\<lambda>l. Inr (LEVEL_POINTS l)) else Inr 0)
       else
         bind_js (if ans \<noteq> None
                  then bind_js (get_prop ans manualScore) (\<lambda>m. Inr (is_number m))
                  else Inr False)
           (\<lambda>num. if num then bind_js (get_prop ans manualScore) (\<lambda>m. Inr (number_of m)) else Inr 0))"

text \<open>
  \<^verbatim>\<open>byLevel[q.level] += gained\<close> reads the old entry; a missing entry would read as
  \<^verbatim>\<open>undefined\<close> and store \<^verbatim>\<open>NaN\<close>, which the model flags as \<open>NaNValue\<close>.
\<close>

definition add_level :: "(level \<times> int) list \<Rightarrow> level \<Rightarrow> int \<Rightarrow> js_fault + (level \<times> int) list" where
  "add_level m l g =
     (case obj_get m l of None \<Rightarrow> Inl NaNValue | Some v \<Rightarrow> Inr (obj_set l (v + g) m))"

definition score_step ::
  "'q question_scheme list \<Rightarrow> (string \<times> 'a answer_scheme) list \<Rightarrow> summary \<Rightarrow> string \<Rightarrow> js_fault + summary" where
  "score_step qs anss acc i =
     (let q = find_question qs i in
      if q = None then Inr acc
      else
        let ans = obj_get anss i in
        bind_js (gained_for q ans) (\<lambda>gained.
        bind_js (get_prop q ip) (\<lambda>t.
        bind_js (get_prop q level) (\<lambda>l.
        bind_js (add_level (byLevel acc) l gained) (\<lambda>lv.
          Inr \<lparr>total_pts = total_pts acc + gained,
               byIP = obj_set t (or_zero (obj_get (byIP acc) t) + gained) (byIP acc),
               byLevel = lv\<rparr>)))))"

fun score_loop ::
  "'q question_scheme list \<Rightarrow> (string \<times> 'a answer_scheme) list \<Rightarrow> summary \<Rightarrow> string list \<Rightarrow> js_fault + summary" where
  "score_loop qs anss acc [] = Inr acc"
| "score_loop qs anss acc (i # rest) =
     (case score_step qs anss acc i of Inl e \<Rightarrow> Inl e
      | Inr acc' \<Rightarrow> score_loop qs anss acc' rest)"

definition score_init :: summary where
  "score_init = \<lparr>total_pts = 0, byIP = [], byLevel = [(La, 0), (Lb, 0), (Lc, 0), (Ls, 0)]\<rparr>"

definition scoreSummary ::
  "'q question_scheme list \<Rightarrow> (string \<times> 'a answer_scheme) list \<Rightarrow> string list \<Rightarrow> js_fault + summary" where
  "scoreSummary qs anss bs = score_loop qs anss score_init bs"

section \<open>Session state and handlers\<close>

record app =
  tab :: tab
  questions :: "question list"
  hints :: "(string \<times> string) list"
  selectedIP :: string
  basket :: "string list"
  phase :: phase
  answers :: "(string \<times> answer) list"

text \<open>The state of the first render, once the question bank \<open>qs\<close> has been loaded.\<close>

definition app_init :: "question list \<Rightarrow> app" where
  "app_init qs = \<lparr>tab = Welcome, questions = qs, hints = [], selectedIP = [], basket = [],
                  phase = Pick, answers = []\<rparr>"

definition inBasket :: "app \<Rightarrow> string \<Rightarrow> bool" where
  "inBasket s i = (i \<in> set (basket s))"

text \<open>
  \<^verbatim>\<open>toggleBasket\<close>. A handler returns the alert it raised, if any, and the next state;
  a throw leaves the state of the render it ran in.
\<close>

definition toggleBasket :: "app \<Rightarrow> string \<Rightarrow> js_fault + (alert option \<times> app)" where
  "toggleBasket s i =
     (if inBasket s i then Inr (None, s\<lparr>basket := filter (\<lambda>x. x \<noteq> i) (basket s)\<rparr>)
      else
        let q = find_question (questions s) i;
            totalOk = (length (basket s) < 5)
        in bind_js (perIPCounts (questions s) (basket s)) (\<lambda>counts.
           bind_js (get_prop q ip) (\<lambda>t.
             let ipOk = (or_zero (obj_get counts t) < 2 \<or> inBasket s i)
             in if \<not> totalOk then Inr (Some AlertTotalCap, s)
                else if \<not> ipOk then Inr (Some AlertIPCap, s)
                else Inr (None, s\<lparr>basket := basket s @ [i]\<rparr>))))"

definition startQuiz :: "app \<Rightarrow> alert option \<times> app" where
  "startQuiz s =
     (if length (basket s) = 0 then (Some AlertChooseFirst, s)
      else (None, s\<lparr>phase := Running, tab := Quiz\<rparr>))"

definition resetAll :: "app \<Rightarrow> app" where
  "resetAll s = s\<lparr>basket := [], phase := Pick, answers := [], tab := Welcome, selectedIP := []\<rparr>"

definition revealReferences :: "app \<Rightarrow> app" where
  "revealReferences s = s\<lparr>phase := Confirm\<rparr>"

definition finishAndShowScore :: "app \<Rightarrow> app" where
  "finishAndShowScore s = s\<lparr>phase := Finished\<rparr>"

text \<open>
  \<^verbatim>\<open>setAnswer(qid, data)\<close> merges \<^verbatim>\<open>data\<close> into the record of \<^verbatim>\<open>qid\<close>:
  \<^verbatim>\<open>{ ...(prev[qid] || {}), ...data }\<close>. The two callers pass \<^verbatim>\<open>{choiceIndex: idx}\<close>
  (\<^verbatim>\<open>MCQBlock\<close>) and \<^verbatim>\<open>{manualScore: p}\<close> (\<^verbatim>\<open>ManualBlock\<close>).
\<close>

definition prev_answer :: "app \<Rightarrow> string \<Rightarrow> answer" where
  "prev_answer s i =
     (case obj_get (answers s) i of None \<Rightarrow> \<lparr>choiceIndex = JUndefined, manualScore = JUndefined\<rparr>
      | Some a \<Rightarrow> a)"

definition setChoice :: "app \<Rightarrow> string \<Rightarrow> int \<Rightarrow> app" where
  "setChoice s i idx = s\<lparr>answers := obj_set i ((prev_answer s i)\<lparr>choiceIndex := JNumber idx\<rparr>) (answers s)\<rparr>"

definition setManual :: "app \<Rightarrow> string \<Rightarrow> int \<Rightarrow> app" where
  "setManual s i p = s\<lparr>answers := obj_set i ((prev_answer s i)\<lparr>manualScore := JNumber p\<rparr>) (answers s)\<rparr>"

section \<open>The rendered controls\<close>

text \<open>
  The handlers above check nothing about the phase. What the user can invoke is decided
  by the render: the start button is \<^verbatim>\<open>disabled={basket.length === 0 || phase !== "pick"}\<close>,
  the reveal button is rendered only when \<^verbatim>\<open>phase === "running"\<close>, the finish button only
  when \<^verbatim>\<open>phase === "confirm"\<close>, the reset button always; in the quiz tab a question card
  carries the toggle button when \<^verbatim>\<open>phase === "pick"\<close> and its answer controls otherwise.
  The administrator's editor changes only the question bank and the hints and is left
  out.
\<close>

definition visibleQuestions :: "app \<Rightarrow> question list" where
  "visibleQuestions s =
     filter (\<lambda>q. qtype q \<noteq> Info)
       (if phase s = Pick
        then filter (\<lambda>q. selectedIP s = [] \<or> ip q = selectedIP s) (questions s)
        else filter (\<lambda>q. qid q \<in> set (basket s)) (questions s))"

text \<open>The score buttons of \<^verbatim>\<open>ManualBlock\<close>: \<^verbatim>\<open>[0, pts]\<close> for a fill question, else \<^verbatim>\<open>0 .. pts\<close>.\<close>

definition choices :: "question \<Rightarrow> int list" where
  "choices q = (if qtype q = Fill then [0, LEVEL_POINTS (level q)] else [0 .. LEVEL_POINTS (level q)])"

text \<open>Whether \<open>t\<close> is one of the names of \<^verbatim>\<open>ips\<close>: the topic of a question or a key of the hints.\<close>

definition ip_listed :: "app \<Rightarrow> string \<Rightarrow> bool" where
  "ip_listed s t = (t \<in> set (map ip (questions s)) \<or> t \<in> set (map fst (hints s)))"

datatype event =
    ClickStart | ClickReset | ClickReveal | ClickFinish
  | ClickToggle string | ClickOption string nat | ClickScore string int
  | ClickTab tab | ClickIP string

fun offered :: "app \<Rightarrow> event \<Rightarrow> bool" where
  "offered s ClickStart = (\<not> (length (basket s) = 0 \<or> phase s \<noteq> Pick))"
| "offered s ClickReset = True"
| "offered s ClickReveal = (phase s = Running)"
| "offered s ClickFinish = (phase s = Confirm)"
| "offered s (ClickToggle i) =
     (tab s = Quiz \<and> phase s = Pick \<and> i \<in> set (map qid (visibleQuestions s)))"
| "offered s (ClickOption i idx) =
     (tab s = Quiz \<and> phase s \<noteq> Pick \<and>
      list_ex (\<lambda>q. qid q = i \<and> qtype q = Mcq \<and> idx < length (options q)) (visibleQuestions s))"
| "offered s (ClickScore i p) =
     (tab s = Quiz \<and> phase s \<noteq> Pick \<and>
      list_ex (\<lambda>q. qid q = i \<and> qtype q \<noteq> Mcq \<and> p \<in> set (choices q)) (visibleQuestions s))"
| "offered s (ClickTab t) = True"
| "offered s (ClickIP t) = ip_listed s t"

fun dispatch :: "app \<Rightarrow> event \<Rightarrow> js_fault + (alert option \<times> app)" where
  "dispatch s ClickStart = Inr (startQuiz s)"
| "dispatch s ClickReset = Inr (None, resetAll s)"
| "dispatch s ClickReveal = Inr (None, revealReferences s)"
| "dispatch s ClickFinish = Inr (None, finishAndShowScore s)"
| "dispatch s (ClickToggle i) = toggleBasket s i"
| "dispatch s (ClickOption i idx) = Inr (None, setChoice s i (int idx))"
| "dispatch s (ClickScore i p) = Inr (None, setManual s i p)"
| "dispatch s (ClickTab t) = Inr (None, s\<lparr>tab := t\<rparr>)"
| "dispatch s (ClickIP t) = Inr (None, s\<lparr>selectedIP := t\<rparr>)"

section \<open>Sequences of toggles and the quantities the properties speak of\<close>

text \<open>
  The state in which the next handler runs: the one \<^verbatim>\<open>toggleBasket\<close> returned, or the
  unchanged one when it threw before any \<^verbatim>\<open>setBasket\<close>.
\<close>

definition after_toggle :: "app \<Rightarrow> string \<Rightarrow> app" where
  "after_toggle s i = (case toggleBasket s i of Inl e \<Rightarrow> s | Inr r \<Rightarrow> snd r)"

fun toggles :: "app \<Rightarrow> string list \<Rightarrow> app" where
  "toggles s [] = s"
| "toggles s (i # rest) = toggles (after_toggle s i) rest"

text \<open>The number of basket members whose question is found and has topic \<open>t\<close>.\<close>

definition topic_count :: "'q question_scheme list \<Rightarrow> string list \<Rightarrow> string \<Rightarrow> nat" where
  "topic_count qs bs t =
     length (filter (\<lambda>i. case find_question qs i of None \<Rightarrow> False | Some q \<Rightarrow> ip q = t) bs)"

text \<open>The keys of \<^verbatim>\<open>byLevel\<close> are the four level tags, in the order of the literal.\<close>

definition level_keys :: "(level \<times> int) list \<Rightarrow> bool" where
  "level_keys m = (map fst m = [La, Lb, Lc, Ls])"

definition summary_ok :: "summary \<Rightarrow> bool" where
  "summary_ok r = level_keys (byLevel r)"

text \<open>The two caps on the basket of a state.\<close>

definition caps :: "app \<Rightarrow> bool" where
  "caps s = (length (basket s) \<le> 5 \<and> (\<forall>t. topic_count (questions s) (basket s) t \<le> 2))"

section \<open>The later revision\<close>

text \<open>
  The repository holds the application in two revisions. The definitions above follow
  the earlier one (\<^verbatim>\<open>src/unnamed/part_000\<close>, which contains it twice), where a
  multiple-choice question has one correct option. The later one
  (\<^verbatim>\<open>src/tailwind.config.js\<close>, after the Tailwind settings) adds multi-select questions
  and differs in these places, which are modelled here under the names of the source
  with the suffix \<open>_v2\<close>:
  \<^item> a question carries \<^verbatim>\<open>correctIndices\<close> (an array) and \<^verbatim>\<open>isMultiChoice\<close>, an answer
    record \<^verbatim>\<open>chosenIndices\<close> (an array); the earlier \<^verbatim>\<open>correctIndex\<close> and \<^verbatim>\<open>choiceIndex\<close>
    are no longer read;
  \<^item> \<^verbatim>\<open>scoreSummary\<close> grades a multiple-choice question by comparing two \<^verbatim>\<open>Set\<close>s, and
    updates \<^verbatim>\<open>byLevel\<close> with \<^verbatim>\<open>(byLevel[q.level] || 0) + gained\<close>;
  \<^item> \<^verbatim>\<open>toggleBasket\<close> returns at once when the phase is not \<^verbatim>\<open>"pick"\<close> and when the
    question is not found;
  \<^item> the reset button is rendered only when the phase is not \<^verbatim>\<open>"pick"\<close>, the option
    buttons are disabled once the references are shown, and the score buttons are
    rendered for the administrator only.
  The handlers \<^verbatim>\<open>startQuiz\<close>, \<^verbatim>\<open>resetAll\<close>, \<^verbatim>\<open>revealReferences\<close> and
  \<^verbatim>\<open>finishAndShowScore\<close> set the same state cells in both revisions (the later one also
  scrolls the window).
\<close>

record question_v2 = question +
  correctIndices :: "int list option"
  isMultiChoice :: bool

record answer_v2 = answer +
  chosenIndices :: "int list option"

subsection \<open>Sets of indices\<close>

text \<open>
  \<^verbatim>\<open>new Set(xs)\<close> keeps the first occurrence of each element, in order; \<^verbatim>\<open>S.has(x)\<close> and
  \<^verbatim>\<open>S.size\<close> are membership and length of that list. \<^verbatim>\<open>xs || []\<close> reads an absent array
  as the empty one.
\<close>

fun new_Set :: "int list \<Rightarrow> int list" where
  "new_Set [] = []"
| "new_Set (x # xs) = x # filter (\<lambda>y. y \<noteq> x) (new_Set xs)"

definition has :: "int list \<Rightarrow> int \<Rightarrow> bool" where
  "has S x = (x \<in> set S)"

fun or_empty :: "int list option \<Rightarrow> int list" where
  "or_empty None = []"
| "or_empty (Some xs) = xs"

subsection \<open>Tallies keyed by topic\<close>

text \<open>
  \<^verbatim>\<open>perIPCounts\<close> and \<^verbatim>\<open>byIP\<close> are object literals \<^verbatim>\<open>{}\<close> indexed by the topic name, so
  a read \<^verbatim>\<open>m[k]\<close> that finds no own property falls through to \<^verbatim>\<open>Object.prototype\<close>. For
  the names below it returns an inherited function (for \<^verbatim>\<open>__proto__\<close> the prototype
  object itself): a truthy value that is not a number. Adding a number to it yields a
  string, and comparing it with a number is false. A slot of a tally therefore holds a
  number or a value that is not a number. A write \<^verbatim>\<open>m[k] = v\<close> creates or updates the own
  property, except for \<^verbatim>\<open>__proto__\<close>, where it reaches the inherited setter, which
  ignores a value that is not an object.

  \<^verbatim>\<open>answers[id]\<close> stays a lookup in an association list: for an id of such a name with
  no record of its own the read returns an inherited value that has neither
  \<^verbatim>\<open>chosenIndices\<close> nor \<^verbatim>\<open>manualScore\<close>, and both branches of the scorer then gain 0, as
  they do without a record. \<^verbatim>\<open>byLevel\<close> is keyed by the four level tags only.
\<close>

datatype slot = Numeric int | NonNumeric

definition proto_keys :: "string list" where
  "proto_keys = [''constructor'', ''__defineGetter__'', ''__defineSetter__'', ''hasOwnProperty'',
                 ''__lookupGetter__'', ''__lookupSetter__'', ''isPrototypeOf'',
                 ''propertyIsEnumerable'', ''toString'', ''valueOf'', ''__proto__'',
                 ''toLocaleString'']"

definition tally_get :: "(string \<times> slot) list \<Rightarrow> string \<Rightarrow> slot option" where
  "tally_get m k =
     (case map_of m k of Some v \<Rightarrow> Some v
      | None \<Rightarrow> if k \<in> set proto_keys then Some NonNumeric else None)"

definition tally_set :: "string \<Rightarrow> slot \<Rightarrow> (string \<times> slot) list \<Rightarrow> (string \<times> slot) list" where
  "tally_set k v m = (if k = ''__proto__'' \<and> map_of m k = None then m else obj_set k v m)"

text \<open>\<^verbatim>\<open>x || 0\<close>, \<^verbatim>\<open>x + n\<close> and \<^verbatim>\<open>x < n\<close> on the value read from a slot.\<close>

fun slot_or_zero :: "slot option \<Rightarrow> slot" where
  "slot_or_zero None = Numeric 0"
| "slot_or_zero (Some (Numeric n)) = Numeric n"
| "slot_or_zero (Some NonNumeric) = NonNumeric"

fun slot_add :: "slot \<Rightarrow> int \<Rightarrow> slot" where
  "slot_add (Numeric a) n = Numeric (a + n)"
| "slot_add NonNumeric n = NonNumeric"

fun slot_less :: "slot \<Rightarrow> int \<Rightarrow> bool" where
  "slot_less (Numeric a) n = (a < n)"
| "slot_less NonNumeric n = False"

text \<open>The sum of the values of a tally, when all of them are numbers.\<close>

fun tally_sum :: "(string \<times> slot) list \<Rightarrow> int option" where
  "tally_sum [] = Some 0"
| "tally_sum ((k, Numeric n) # m) = (case tally_sum m of None \<Rightarrow> None | Some t \<Rightarrow> Some (n + t))"
| "tally_sum ((k, NonNumeric) # m) = None"

subsection \<open>Basket counting and scoring\<close>

definition perIP_step_v2 ::
  "'q question_scheme list \<Rightarrow> (string \<times> slot) list \<Rightarrow> string \<Rightarrow> js_fault + (string \<times> slot) list" where
  "perIP_step_v2 qs m i =
     (let q = find_question qs i in
      if q = None then Inr m
      else bind_js (get_prop q ip) (\<lambda>t.
             Inr (tally_set t (slot_add (slot_or_zero (tally_get m t)) 1) m)))"

fun perIP_loop_v2 ::
  "'q question_scheme list \<Rightarrow> (string \<times> slot) list \<Rightarrow> string list \<Rightarrow> js_fault + (string \<times> slot) list" where
  "perIP_loop_v2 qs m [] = Inr m"
| "perIP_loop_v2 qs m (i # rest) =
     (case perIP_step_v2 qs m i of Inl e \<Rightarrow> Inl e | Inr m' \<Rightarrow> perIP_loop_v2 qs m' rest)"

definition perIPCounts_v2 ::
  "'q question_scheme list \<Rightarrow> string list \<Rightarrow> js_fault + (string \<times> slot) list" where
  "perIPCounts_v2 qs bs = perIP_loop_v2 qs [] bs"

record summary_v2 =
  total_v2 :: int
  byIP_v2 :: "(string \<times> slot) list"
  byLevel_v2 :: "(level \<times> int) list"

text \<open>
  The exact-match test of \<^verbatim>\<open>scoreSummary\<close>: every member of the correct set is chosen,
  every chosen member is correct, and the two sets have the same size.
\<close>

definition exact_match :: "int list option \<Rightarrow> int list option \<Rightarrow> bool" where
  "exact_match ci ch =
     (let correctIndicesSet = new_Set (or_empty ci);
          chosenIndicesSet = new_Set (or_empty ch);
          allCorrectChosen = list_all (\<lambda>cIdx. has chosenIndicesSet cIdx) correctIndicesSet;
          noIncorrectChosen = list_all (\<lambda>cIdx. has correctIndicesSet cIdx) chosenIndicesSet
      in allCorrectChosen \<and> noIncorrectChosen
         \<and> length correctIndicesSet = length chosenIndicesSet)"

text \<open>
  The multiple-choice branch is entered on \<^verbatim>\<open>ans && ans.chosenIndices\<close>; an array is
  truthy even when it is empty.
\<close>

definition gained_for_v2 ::
  "'q question_v2_scheme option \<Rightarrow> 'a answer_v2_scheme option \<Rightarrow> js_fault + int" where
  "gained_for_v2 q ans =
     bind_js (get_prop q qtype) (\<lambda>ty.
       if ty = Mcq then
         bind_js (if ans \<noteq> None
                  then bind_js (get_prop ans chosenIndices) (\<lambda>ch. Inr (ch \<noteq> None))
                  else Inr False)
           (\<lambda>answered.
              if answered then
                bind_js (get_prop q correctIndices) (\<lambda>ci.
                bind_js (get_prop ans chosenIndices) (\<lambda>ch.
                  if exact_match ci ch
                  then bind_js (get_prop q level) (\<lambda>l. Inr (LEVEL_POINTS l))
                  else Inr 0))
              else Inr 0)
       else
         bind_js (if ans \<noteq> None
                  then bind_js (get_prop ans manualScore) (\<lambda>m. Inr (is_number m))
                  else Inr False)
           (\<lambda>num. if num then bind_js (get_prop ans manualScore) (\<lambda>m. Inr (number_of m)) else Inr 0))"

definition score_step_v2 ::
  "'q question_v2_scheme list \<Rightarrow> (string \<times> 'a answer_v2_scheme) list \<Rightarrow> summary_v2 \<Rightarrow> string
     \<Rightarrow> js_fault + summary_v2" where
  "score_step_v2 qs anss acc i =
     (let q = find_question qs i in
      if q = None then Inr acc
      else
        let ans = obj_get anss i in
        bind_js (gained_for_v2 q ans) (\<lambda>gained.
        bind_js (get_prop q ip) (\<lambda>t.
        bind_js (get_prop q level) (\<lambda>l.
          Inr \<lparr>total_v2 = total_v2 acc + gained,
               byIP_v2 = tally_set t (slot_add (slot_or_zero (tally_get (byIP_v2 acc) t)) gained)
                           (byIP_v2 acc),
               byLevel_v2 = obj_set l (or_zero (obj_get (byLevel_v2 acc) l) + gained)
                              (byLevel_v2 acc)\<rparr>))))"

fun score_loop_v2 ::
  "'q question_v2_scheme list \<Rightarrow> (string \<times> 'a answer_v2_scheme) list \<Rightarrow> summary_v2 \<Rightarrow> string list
     \<Rightarrow> js_fault + summary_v2" where
  "score_loop_v2 qs anss acc [] = Inr acc"
| "score_loop_v2 qs anss acc (i # rest) =
     (case score_step_v2 qs anss acc i of Inl e \<Rightarrow> Inl e
      | Inr acc' \<Rightarrow> score_loop_v2 qs anss acc' rest)"

definition score_init_v2 :: summary_v2 where
  "score_init_v2 = \<lparr>total_v2 = 0, byIP_v2 = [], byLevel_v2 = [(La, 0), (Lb, 0), (Lc, 0), (Ls, 0)]\<rparr>"

definition scoreSummary_v2 ::
  "'q question_v2_scheme list \<Rightarrow> (string \<times> 'a answer_v2_scheme) list \<Rightarrow> string list
     \<Rightarrow> js_fault + summary_v2" where
  "scoreSummary_v2 qs anss bs = score_loop_v2 qs anss score_init_v2 bs"

text \<open>
  The sets the exact-match property speaks of: the correct indices of a question, and
  the indices chosen in an answer record (none when there is no record or no array).
\<close>

definition correct_set :: "'q question_v2_scheme \<Rightarrow> int set" where
  "correct_set q = set (or_empty (correctIndices q))"

definition chosen_set :: "'a answer_v2_scheme option \<Rightarrow> int set" where
  "chosen_set ans = (case ans of None \<Rightarrow> {} | Some a \<Rightarrow> set (or_empty (chosenIndices a)))"

subsection \<open>Session state and handlers\<close>

record app_v2 =
  tab_v2 :: tab
  questions_v2 :: "question_v2 list"
  hints_v2 :: "(string \<times> string) list"
  selectedIP_v2 :: string
  basket_v2 :: "string list"
  phase_v2 :: phase
  answers_v2 :: "(string \<times> answer_v2) list"
  adminMode :: bool

definition app_init_v2 :: "question_v2 list \<Rightarrow> app_v2" where
  "app_init_v2 qs = \<lparr>tab_v2 = Welcome, questions_v2 = qs, hints_v2 = [], selectedIP_v2 = [],
                     basket_v2 = [], phase_v2 = Pick, answers_v2 = [], adminMode = False\<rparr>"

definition inBasket_v2 :: "app_v2 \<Rightarrow> string \<Rightarrow> bool" where
  "inBasket_v2 s i = (i \<in> set (basket_v2 s))"

definition toggleBasket_v2 :: "app_v2 \<Rightarrow> string \<Rightarrow> js_fault + (alert option \<times> app_v2)" where
  "toggleBasket_v2 s i =
     (if phase_v2 s \<noteq> Pick then Inr (None, s)
      else if inBasket_v2 s i
      then Inr (None, s\<lparr>basket_v2 := filter (\<lambda>x. x \<noteq> i) (basket_v2 s)\<rparr>)
      else
        let q = find_question (questions_v2 s) i in
        if q = None then Inr (None, s)
        else
          let totalOk = (length (basket_v2 s) < 5)
          in bind_js (perIPCounts_v2 (questions_v2 s) (basket_v2 s)) (\<lambda>counts.
             bind_js (get_prop q ip) (\<lambda>t.
               let ipOk = slot_less (slot_or_zero (tally_get counts t)) 2
               in if \<not> totalOk then Inr (Some AlertTotalCap, s)
                  else if \<not> ipOk then Inr (Some AlertIPCap, s)
                  else Inr (None, s\<lparr>basket_v2 := basket_v2 s @ [i]\<rparr>))))"

definition startQuiz_v2 :: "app_v2 \<Rightarrow> alert option \<times> app_v2" where
  "startQuiz_v2 s =
     (if length (basket_v2 s) = 0 then (Some AlertChooseFirst, s)
      else (None, s\<lparr>phase_v2 := Running, tab_v2 := Quiz\<rparr>))"

definition resetAll_v2 :: "app_v2 \<Rightarrow> app_v2" where
  "resetAll_v2 s = s\<lparr>basket_v2 := [], phase_v2 := Pick, answers_v2 := [], tab_v2 := Welcome,
                      selectedIP_v2 := []\<rparr>"

definition revealReferences_v2 :: "app_v2 \<Rightarrow> app_v2" where
  "revealReferences_v2 s = s\<lparr>phase_v2 := Confirm\<rparr>"

definition finishAndShowScore_v2 :: "app_v2 \<Rightarrow> app_v2" where
  "finishAndShowScore_v2 s = s\<lparr>phase_v2 := Finished\<rparr>"

definition prev_answer_v2 :: "app_v2 \<Rightarrow> string \<Rightarrow> answer_v2" where
  "prev_answer_v2 s i =
     (case obj_get (answers_v2 s) i of
        None \<Rightarrow> \<lparr>choiceIndex = JUndefined, manualScore = JUndefined, chosenIndices = None\<rparr>
      | Some a \<Rightarrow> a)"

definition setChosen :: "app_v2 \<Rightarrow> string \<Rightarrow> int list \<Rightarrow> app_v2" where
  "setChosen s i xs =
     s\<lparr>answers_v2 := obj_set i ((prev_answer_v2 s i)\<lparr>chosenIndices := Some xs\<rparr>) (answers_v2 s)\<rparr>"

definition setManual_v2 :: "app_v2 \<Rightarrow> string \<Rightarrow> int \<Rightarrow> app_v2" where
  "setManual_v2 s i p =
     s\<lparr>answers_v2 := obj_set i ((prev_answer_v2 s i)\<lparr>manualScore := JNumber p\<rparr>) (answers_v2 s)\<rparr>"

text \<open>\<^verbatim>\<open>showReference\<close>, as \<^verbatim>\<open>QuizArea\<close> passes it to the answer blocks.\<close>

definition showReference :: "app_v2 \<Rightarrow> bool" where
  "showReference s = (phase_v2 s = Confirm \<or> phase_v2 s = Finished)"

text \<open>
  \<^verbatim>\<open>toggleChoice(idx)\<close> of the \<^verbatim>\<open>MCQBlock\<close> of question \<open>q\<close>: nothing once the references
  are shown; otherwise a multi-choice question toggles \<open>idx\<close> in the chosen array and a
  single-choice one replaces the array by \<open>[idx]\<close>.
\<close>

definition toggleChoice :: "app_v2 \<Rightarrow> question_v2 \<Rightarrow> int \<Rightarrow> app_v2" where
  "toggleChoice s q idx =
     (let chosen = (case obj_get (answers_v2 s) (qid q) of None \<Rightarrow> []
                    | Some a \<Rightarrow> or_empty (chosenIndices a))
      in if showReference s then s
         else setChosen s (qid q)
                (if isMultiChoice q
                 then (if idx \<in> set chosen then filter (\<lambda>x. x \<noteq> idx) chosen else chosen @ [idx])
                 else [idx]))"

subsection \<open>The rendered controls\<close>

definition visibleQuestions_v2 :: "app_v2 \<Rightarrow> question_v2 list" where
  "visibleQuestions_v2 s =
     filter (\<lambda>q. qtype q \<noteq> Info)
       (if phase_v2 s = Pick
        then filter (\<lambda>q. selectedIP_v2 s = [] \<or> ip q = selectedIP_v2 s) (questions_v2 s)
        else filter (\<lambda>q. qid q \<in> set (basket_v2 s)) (questions_v2 s))"

text \<open>The question of the \<open>n\<close>-th card that \<^verbatim>\<open>QuizArea\<close> renders, if there is one.\<close>

definition card_at :: "app_v2 \<Rightarrow> nat \<Rightarrow> question_v2 option" where
  "card_at s n = (if n < length (visibleQuestions_v2 s) then Some (visibleQuestions_v2 s ! n) else None)"

definition ip_listed_v2 :: "app_v2 \<Rightarrow> string \<Rightarrow> bool" where
  "ip_listed_v2 s t = (t \<in> set (map ip (questions_v2 s)) \<or> t \<in> set (map fst (hints_v2 s)))"

text \<open>
  A control of the later revision: the four sidebar buttons, the toggle button of the
  \<open>n\<close>-th card, the \<open>idx\<close>-th option button and the score button \<open>p\<close> of the \<open>n\<close>-th card,
  the tab buttons and the topic list. The administrator's login and editor are left out.
\<close>

datatype event_v2 =
    PressStart | PressReset | PressReveal | PressFinish
  | PressToggle nat | PressOption nat nat | PressScore nat int
  | PressTab tab | PressIP string

fun offered_v2 :: "app_v2 \<Rightarrow> event_v2 \<Rightarrow> bool" where
  "offered_v2 s PressStart = (\<not> (length (basket_v2 s) = 0 \<or> phase_v2 s \<noteq> Pick))"
| "offered_v2 s PressReset = (phase_v2 s \<noteq> Pick)"
| "offered_v2 s PressReveal = (phase_v2 s = Running)"
| "offered_v2 s PressFinish = (phase_v2 s = Confirm)"
| "offered_v2 s (PressToggle n) =
     (tab_v2 s = Quiz \<and> phase_v2 s = Pick \<and> card_at s n \<noteq> None)"
| "offered_v2 s (PressOption n idx) =
     (tab_v2 s = Quiz \<and> phase_v2 s \<noteq> Pick \<and> \<not> showReference s \<and>
      (case card_at s n of None \<Rightarrow> False
       | Some q \<Rightarrow> qtype q = Mcq \<and> idx < length (options q)))"
| "offered_v2 s (PressScore n p) =
     (tab_v2 s = Quiz \<and> phase_v2 s \<noteq> Pick \<and> adminMode s \<and> \<not> showReference s \<and>
      (case card_at s n of None \<Rightarrow> False
       | Some q \<Rightarrow> qtype q \<noteq> Mcq \<and> p \<in> set [0 .. LEVEL_POINTS (level q)]))"
| "offered_v2 s (PressTab t) = True"
| "offered_v2 s (PressIP t) = ip_listed_v2 s t"

text \<open>What pressing a control does; a control of a card that is not there does nothing.\<close>

fun dispatch_v2 :: "app_v2 \<Rightarrow> event_v2 \<Rightarrow> js_fault + (alert option \<times> app_v2)" where
  "dispatch_v2 s PressStart = Inr (startQuiz_v2 s)"
| "dispatch_v2 s PressReset = Inr (None, resetAll_v2 s)"
| "dispatch_v2 s PressReveal = Inr (None, revealReferences_v2 s)"
| "dispatch_v2 s PressFinish = Inr (None, finishAndShowScore_v2 s)"
| "dispatch_v2 s (PressToggle n) =
     (case card_at s n of None \<Rightarrow> Inr (None, s) | Some q \<Rightarrow> toggleBasket_v2 s (qid q))"
| "dispatch_v2 s (PressOption n idx) =
     (case card_at s n of None \<Rightarrow> Inr (None, s) | Some q \<Rightarrow> Inr (None, toggleChoice s q (int idx)))"
| "dispatch_v2 s (PressScore n p) =
     (case card_at s n of None \<Rightarrow> Inr (None, s) | Some q \<Rightarrow> Inr (None, setManual_v2 s (qid q) p))"
| "dispatch_v2 s (PressTab t) = Inr (None, s\<lparr>tab_v2 := t\<rparr>)"
| "dispatch_v2 s (PressIP t) = Inr (None, s\<lparr>selectedIP_v2 := t\<rparr>)"

section \<open>Sample data\<close>

text \<open>
  A small bank in the shape of the seed data: three multiple-choice questions of topic
  \<open>X\<close> at level B whose correct option is the second one, and two short-answer
  questions in each of the topics \<open>Y\<close> (levels A and C) and \<open>Z\<close> (levels S and B).
\<close>

definition demo_mcq :: "string \<Rightarrow> question" where
  "demo_mcq i = \<lparr>qid = i, ip = ''X'', qtype = Mcq, level = Lb,
                  options = [''w'', ''x'', ''y'', ''z''], correctIndex = JNumber 1\<rparr>"

definition demo_short :: "string \<Rightarrow> string \<Rightarrow> level \<Rightarrow> question" where
  "demo_short i t l = \<lparr>qid = i, ip = t, qtype = Short, level = l,
                        options = [], correctIndex = JUndefined\<rparr>"

definition demo_bank :: "question list" where
  "demo_bank = [demo_mcq ''x1'', demo_mcq ''x2'', demo_mcq ''x3'',
                demo_short ''y1'' ''Y'' La, demo_short ''z1'' ''Z'' Ls,
                demo_short ''y2'' ''Y'' Lc, demo_short ''z2'' ''Z'' Lb]"

definition chose :: "int \<Rightarrow> answer" where
  "chose idx = \<lparr>choiceIndex = JNumber idx, manualScore = JUndefined\<rparr>"

definition graded :: "jsval \<Rightarrow> answer" where
  "graded v = \<lparr>choiceIndex = JUndefined, manualScore = v\<rparr>"

text \<open>
  For the later revision: a multi-select question of topic \<open>X\<close> at level B whose
  correct options are the first and the third, a short-answer question of topic \<open>Y\<close>
  at level A, and a short-answer question at level B whose topic is named
  \<^verbatim>\<open>__proto__\<close>.
\<close>

definition demo_multi :: question_v2 where
  "demo_multi = \<lparr>qid = ''m1'', ip = ''X'', qtype = Mcq, level = Lb,
                  options = [''w'', ''x'', ''y'', ''z''], correctIndex = JUndefined,
                  correctIndices = Some [0, 2], isMultiChoice = True\<rparr>"

definition demo_short_v2 :: "string \<Rightarrow> string \<Rightarrow> level \<Rightarrow> question_v2" where
  "demo_short_v2 i t l = \<lparr>qid = i, ip = t, qtype = Short, level = l, options = [],
                           correctIndex = JUndefined, correctIndices = None, isMultiChoice = False\<rparr>"

definition demo_bank_v2 :: "question_v2 list" where
  "demo_bank_v2 = [demo_multi, demo_short_v2 ''y1'' ''Y'' La, demo_short_v2 ''p1'' ''__proto__'' Lb]"

definition picked :: "int list \<Rightarrow> answer_v2" where
  "picked xs = \<lparr>choiceIndex = JUndefined, manualScore = JUndefined, chosenIndices = Some xs\<rparr>"

definition graded_v2 :: "int \<Rightarrow> answer_v2" where
  "graded_v2 n = \<lparr>choiceIndex = JUndefined, manualScore = JNumber n, chosenIndices = None\<rparr>"

text \<open>Whether no basket question that is found has a topic named like a member of
  \<^verbatim>\<open>Object.prototype\<close>.\<close>

definition ordinary_topics :: "'q question_scheme list \<Rightarrow> string list \<Rightarrow> bool" where
  "ordinary_topics qs bs =
     list_all (\<lambda>i. case find_question qs i of None \<Rightarrow> True | Some q \<Rightarrow> ip q \<notin> set proto_keys) bs"

section \<open>Auxiliary facts\<close>

lemma get_prop_Some: "get_prop (Some x) f = Inr (f x)"
  by (simp add: get_prop_def)

lemma get_prop_None: "get_prop None f = Inl TypeError"
  by (simp add: get_prop_def)

lemma bind_js_Inr: "bind_js (Inr v) k = k v"
  by (simp add: bind_js_def)

lemma bind_js_Inl: "bind_js (Inl e) k = Inl e"
  by (simp add: bind_js_def)

lemma obj_get_set: "obj_get (obj_set k v m) k' = (if k' = k then Some v else obj_get m k')"
  by (induction m) (auto simp: obj_get_def)

lemma keys_obj_set_present: "k \<in> fst ` set m \<Longrightarrow> map fst (obj_set k v m) = map fst m"
  by (induction m) auto

lemma keys_obj_set_absent: "k \<notin> fst ` set m \<Longrightarrow> map fst (obj_set k v m) = map fst m @ [k]"
  by (induction m) auto

lemma distinct_obj_set: "distinct (map fst m) \<Longrightarrow> distinct (map fst (obj_set k v m))"
  by (cases "k \<in> fst ` set m") (simp_all add: keys_obj_set_present keys_obj_set_absent)

lemma sum_obj_set:
  fixes m :: "('k \<times> int) list"
  shows "sum_list (map snd (obj_set k v m)) = sum_list (map snd m) - or_zero (obj_get m k) + v"
  by (induction m) (auto simp: obj_get_def)

lemma gained_for_mcq:
  "qtype q = Mcq \<Longrightarrow>
   gained_for (Some q) ans =
     Inr (case ans of None \<Rightarrow> 0
          | Some a \<Rightarrow> if choiceIndex a = correctIndex q then LEVEL_POINTS (level q) else 0)"
  by (cases ans) (simp_all add: gained_for_def get_prop_Some bind_js_Inr)

lemma gained_for_manual:
  "qtype q \<noteq> Mcq \<Longrightarrow>
   gained_for (Some q) ans =
     Inr (case ans of None \<Rightarrow> 0
          | Some a \<Rightarrow> if is_number (manualScore a) then number_of (manualScore a) else 0)"
  by (cases ans) (simp_all add: gained_for_def get_prop_Some bind_js_Inr)

lemma gained_for_total: "\<exists>g. gained_for (Some q) ans = Inr g"
  by (cases "qtype q = Mcq") (simp_all add: gained_for_mcq gained_for_manual)


lemma level_keys_get: "level_keys m \<Longrightarrow> \<exists>v. obj_get m l = Some v"
proof -
  assume "level_keys m"
  then have "l \<in> fst ` set m"
    by (cases l) (simp_all add: level_keys_def flip: set_map)
  then show ?thesis
    by (auto simp: obj_get_def weak_map_of_SomeI map_of_eq_None_iff[symmetric])
qed

lemma add_level_ok:
  assumes "level_keys m"
  shows "\<exists>m'. add_level m l g = Inr m' \<and> level_keys m'
          \<and> sum_list (map snd m') = sum_list (map snd m) + g
          \<and> obj_get m' l = Some (or_zero (obj_get m l) + g)
          \<and> (\<forall>l'. l' \<noteq> l \<longrightarrow> obj_get m' l' = obj_get m l')"
proof -
  obtain v where v: "obj_get m l = Some v"
    using level_keys_get [OF assms] by blast
  then have "l \<in> fst ` set m"
    by (auto simp: obj_get_def dest: map_of_SomeD intro: rev_image_eqI)
  then have "map fst (obj_set l (v + g) m) = map fst m"
    by (rule keys_obj_set_present)
  with assms v show ?thesis
    by (simp add: add_level_def level_keys_def sum_obj_set obj_get_set)
qed


lemma summary_ok_init: "summary_ok score_init"
  by (simp add: summary_ok_def score_init_def level_keys_def)

lemma score_step_absent: "find_question qs i = None \<Longrightarrow> score_step qs anss acc i = Inr acc"
  by (simp add: score_step_def)

lemma score_step_found:
  assumes q: "find_question qs i = Some q" and g: "gained_for (Some q) (obj_get anss i) = Inr g"
    and ok: "level_keys (byLevel acc)"
  shows "\<exists>r. score_step qs anss acc i = Inr r
           \<and> total_pts r = total_pts acc + g
           \<and> byIP r = obj_set (ip q) (or_zero (obj_get (byIP acc) (ip q)) + g) (byIP acc)
           \<and> level_keys (byLevel r)
           \<and> sum_list (map snd (byLevel r)) = sum_list (map snd (byLevel acc)) + g
           \<and> obj_get (byLevel r) (level q) = Some (or_zero (obj_get (byLevel acc) (level q)) + g)
           \<and> (\<forall>l'. l' \<noteq> level q \<longrightarrow> obj_get (byLevel r) l' = obj_get (byLevel acc) l')"
proof -
  obtain lv where lv: "add_level (byLevel acc) (level q) g = Inr lv" "level_keys lv"
      "sum_list (map snd lv) = sum_list (map snd (byLevel acc)) + g"
      "obj_get lv (level q) = Some (or_zero (obj_get (byLevel acc) (level q)) + g)"
      "\<forall>l'. l' \<noteq> level q \<longrightarrow> obj_get lv l' = obj_get (byLevel acc) l'"
    using add_level_ok [OF ok, of "level q" g] by blast
  have "score_step qs anss acc i =
          Inr \<lparr>total_pts = total_pts acc + g,
               byIP = obj_set (ip q) (or_zero (obj_get (byIP acc) (ip q)) + g) (byIP acc),
               byLevel = lv\<rparr>"
    using q g lv(1) by (simp add: score_step_def get_prop_Some bind_js_Inr)
  with lv show ?thesis by simp
qed

lemma score_step_ok:
  assumes "summary_ok acc"
  shows "\<exists>r. score_step qs anss acc i = Inr r \<and> summary_ok r"
proof (cases "find_question qs i")
  case None
  with assms show ?thesis by (simp add: score_step_absent)
next
  case (Some q)
  obtain g where g: "gained_for (Some q) (obj_get anss i) = Inr g"
    using gained_for_total by blast
  from assms have lk: "level_keys (byLevel acc)" by (simp add: summary_ok_def)
  from score_step_found [OF Some g lk] assms show ?thesis
    by (auto simp: summary_ok_def)
qed

lemma score_loop_ok:
  "summary_ok acc \<Longrightarrow> \<exists>r. score_loop qs anss acc bs = Inr r \<and> summary_ok r"
proof (induction bs arbitrary: acc)
  case Nil
  then show ?case by simp
next
  case (Cons i bs)
  obtain r where r: "score_step qs anss acc i = Inr r" "summary_ok r"
    using score_step_ok [OF Cons.prems] by blast
  with Cons.IH [of r] show ?case by simp
qed

lemma score_loop_append:
  "score_loop qs anss acc (bs @ cs) =
     (case score_loop qs anss acc bs of Inl e \<Rightarrow> Inl e | Inr r \<Rightarrow> score_loop qs anss r cs)"
  by (induction bs arbitrary: acc) (simp_all split: sum.splits)

lemma scoreSummary_ok: "\<exists>r. scoreSummary qs anss bs = Inr r \<and> summary_ok r"
  unfolding scoreSummary_def by (rule score_loop_ok [OF summary_ok_init])

lemma perIP_step_absent: "find_question qs i = None \<Longrightarrow> perIP_step qs m i = Inr m"
  by (simp add: perIP_step_def)

lemma perIP_step_found:
  "find_question qs i = Some q \<Longrightarrow>
   perIP_step qs m i = Inr (obj_set (ip q) (or_zero (obj_get m (ip q)) + 1) m)"
  by (simp add: perIP_step_def get_prop_Some bind_js_Inr)

lemma perIP_step_ok: "\<exists>m'. perIP_step qs m i = Inr m'"
  by (cases "find_question qs i") (simp_all add: perIP_step_absent perIP_step_found)

lemma perIP_loop_ok: "\<exists>m'. perIP_loop qs m bs = Inr m'"
proof (induction bs arbitrary: m)
  case Nil
  show ?case by simp
next
  case (Cons i bs)
  obtain m1 where "perIP_step qs m i = Inr m1"
    using perIP_step_ok by blast
  with Cons.IH [of m1] show ?case by simp
qed

lemma perIP_loop_append:
  "perIP_loop qs m (bs @ cs) =
     (case perIP_loop qs m bs of Inl e \<Rightarrow> Inl e | Inr m' \<Rightarrow> perIP_loop qs m' cs)"
  by (induction bs arbitrary: m) (simp_all split: sum.splits)

lemma perIP_loop_skip:
  "find_question qs i = None \<Longrightarrow> perIP_loop qs m (bs @ i # cs) = perIP_loop qs m (bs @ cs)"
  by (simp add: perIP_loop_append perIP_step_absent split: sum.splits)

lemma score_loop_skip:
  "find_question qs i = None \<Longrightarrow>
   score_loop qs anss acc (bs @ i # cs) = score_loop qs anss acc (bs @ cs)"
  by (simp add: score_loop_append score_step_absent split: sum.splits)

lemma score_contribution:
  assumes q: "find_question qs i = Some q" and g: "gained_for (Some q) (obj_get anss i) = Inr g"
  shows "\<exists>r r'. scoreSummary qs anss bs = Inr r \<and> scoreSummary qs anss (bs @ [i]) = Inr r'
           \<and> total_pts r' = total_pts r + g
           \<and> obj_get (byIP r') (ip q) = Some (or_zero (obj_get (byIP r) (ip q)) + g)
           \<and> obj_get (byLevel r') (level q) = Some (or_zero (obj_get (byLevel r) (level q)) + g)"
proof -
  obtain r where r: "scoreSummary qs anss bs = Inr r" "summary_ok r"
    using scoreSummary_ok by blast
  then have lk: "level_keys (byLevel r)" by (simp add: summary_ok_def)
  obtain r' where r': "score_step qs anss r i = Inr r'"
      "total_pts r' = total_pts r + g"
      "byIP r' = obj_set (ip q) (or_zero (obj_get (byIP r) (ip q)) + g) (byIP r)"
      "obj_get (byLevel r') (level q) = Some (or_zero (obj_get (byLevel r) (level q)) + g)"
    using score_step_found [OF q g lk] by blast
  have "scoreSummary qs anss (bs @ [i]) = Inr r'"
    using r(1) r'(1) by (simp add: scoreSummary_def score_loop_append)
  with r r' show ?thesis by (simp add: obj_get_set)
qed

lemma topic_count_Cons:
  "topic_count qs (i # bs) t =
     (case find_question qs i of None \<Rightarrow> 0 | Some q \<Rightarrow> if ip q = t then 1 else 0)
     + topic_count qs bs t"
  by (simp add: topic_count_def split: option.splits)

lemma perIP_loop_count:
  "perIP_loop qs m bs = Inr m' \<Longrightarrow>
   or_zero (obj_get m' t) = or_zero (obj_get m t) + topic_count qs bs t"
proof (induction bs arbitrary: m)
  case Nil
  then show ?case by (simp add: topic_count_def)
next
  case (Cons i bs)
  show ?case
  proof (cases "find_question qs i")
    case None
    with Cons.prems have "perIP_loop qs m bs = Inr m'"
      by (simp add: perIP_step_absent)
    from Cons.IH [OF this] None show ?thesis
      by (simp add: topic_count_Cons)
  next
    case (Some q)
    with Cons.prems
    have "perIP_loop qs (obj_set (ip q) (or_zero (obj_get m (ip q)) + 1) m) bs = Inr m'"
      by (simp add: perIP_step_found)
    from Cons.IH [OF this] Some show ?thesis
      by (simp add: topic_count_Cons obj_get_set)
  qed
qed

lemma perIPCounts_count:
  "\<exists>m. perIPCounts qs bs = Inr m \<and> (\<forall>t. or_zero (obj_get m t) = topic_count qs bs t)"
proof -
  obtain m where m: "perIP_loop qs [] bs = Inr m"
    using perIP_loop_ok by blast
  from perIP_loop_count [OF m] m show ?thesis
    by (simp add: perIPCounts_def obj_get_def)
qed

lemma toggle_remove:
  "inBasket s i \<Longrightarrow>
   toggleBasket s i = Inr (None, s\<lparr>basket := filter (\<lambda>x. x \<noteq> i) (basket s)\<rparr>)"
  by (simp add: toggleBasket_def)

lemma toggle_missing:
  assumes "\<not> inBasket s i" and "find_question (questions s) i = None"
  shows "toggleBasket s i = Inl TypeError"
proof -
  obtain m where "perIPCounts (questions s) (basket s) = Inr m"
    using perIPCounts_count by blast
  with assms show ?thesis
    by (simp add: toggleBasket_def bind_js_Inr bind_js_Inl get_prop_None)
qed

lemma toggle_add:
  assumes "\<not> inBasket s i" and "find_question (questions s) i = Some q"
  shows "toggleBasket s i =
           Inr (if \<not> length (basket s) < 5 then (Some AlertTotalCap, s)
                else if \<not> topic_count (questions s) (basket s) (ip q) < 2 then (Some AlertIPCap, s)
                else (None, s\<lparr>basket := basket s @ [i]\<rparr>))"
proof -
  obtain m where "perIPCounts (questions s) (basket s) = Inr m"
      "\<forall>t. or_zero (obj_get m t) = topic_count (questions s) (basket s) t"
    using perIPCounts_count by blast
  with assms show ?thesis
    by (simp add: toggleBasket_def bind_js_Inr get_prop_Some)
qed

lemma topic_count_filter: "topic_count qs (filter P bs) t \<le> topic_count qs bs t"
proof -
  have "filter (\<lambda>i. case find_question qs i of None \<Rightarrow> False | Some q \<Rightarrow> ip q = t) (filter P bs)
        = filter P (filter (\<lambda>i. case find_question qs i of None \<Rightarrow> False | Some q \<Rightarrow> ip q = t) bs)"
    by (simp add: conj_commute)
  then show ?thesis
    by (simp add: topic_count_def del: filter_filter)
qed

lemma topic_count_snoc:
  "find_question qs i = Some q \<Longrightarrow>
   topic_count qs (bs @ [i]) t = topic_count qs bs t + (if ip q = t then 1 else 0)"
  by (simp add: topic_count_def)

lemma after_toggle_caps:
  assumes "caps s"
  shows "caps (after_toggle s i) \<and> questions (after_toggle s i) = questions s"
proof (cases "inBasket s i")
  case True
  then have eq: "after_toggle s i = s\<lparr>basket := filter (\<lambda>x. x \<noteq> i) (basket s)\<rparr>"
    by (simp add: after_toggle_def toggle_remove)
  from assms have "length (basket s) \<le> 5"
    by (simp add: caps_def)
  then have len: "length (filter (\<lambda>x. x \<noteq> i) (basket s)) \<le> 5"
    by (rule order_trans [OF length_filter_le])
  have cnt: "topic_count (questions s) (filter (\<lambda>x. x \<noteq> i) (basket s)) t \<le> 2" for t
  proof -
    have "topic_count (questions s) (filter (\<lambda>x. x \<noteq> i) (basket s)) t
            \<le> topic_count (questions s) (basket s) t"
      by (rule topic_count_filter)
    also from assms have "\<dots> \<le> 2" by (simp add: caps_def)
    finally show ?thesis .
  qed
  from len cnt show ?thesis
    by (simp add: eq caps_def)
next
  case False
  show ?thesis
  proof (cases "find_question (questions s) i")
    case None
    with False assms show ?thesis
      by (simp add: after_toggle_def toggle_missing)
  next
    case (Some q)
    with False assms show ?thesis
      by (auto simp: after_toggle_def toggle_add caps_def topic_count_snoc)
  qed
qed

lemma toggles_caps: "caps s \<Longrightarrow> caps (toggles s is) \<and> questions (toggles s is) = questions s"
proof (induction "is" arbitrary: s)
  case Nil
  then show ?case by simp
next
  case (Cons i "is")
  from after_toggle_caps [OF Cons.prems, of i] Cons.IH [of "after_toggle s i"]
  show ?case by simp
qed

lemma toggle_phase: "toggleBasket s i = Inr (a, s') \<Longrightarrow> phase s' = phase s"
proof (cases "inBasket s i")
  case True
  assume "toggleBasket s i = Inr (a, s')"
  with True show ?thesis by (auto simp: toggle_remove)
next
  case False
  assume r: "toggleBasket s i = Inr (a, s')"
  show ?thesis
  proof (cases "find_question (questions s) i")
    case None
    with False r show ?thesis by (simp add: toggle_missing)
  next
    case (Some q)
    with False r show ?thesis by (auto simp: toggle_add split: if_splits)
  qed
qed

lemma offered_toggle_found:
  "offered s (ClickToggle i) \<Longrightarrow> find_question (questions s) i \<noteq> None"
  by (auto simp: find_question_def find_None_iff visibleQuestions_def split: if_splits)

subsection \<open>The later revision\<close>

lemma set_new_Set: "set (new_Set xs) = set xs"
  by (induction xs) auto

lemma distinct_new_Set: "distinct (new_Set xs)"
  by (induction xs) (auto simp: set_new_Set)

lemma length_new_Set: "length (new_Set xs) = card (set xs)"
proof -
  have "card (set (new_Set xs)) = length (new_Set xs)"
    by (rule distinct_card [OF distinct_new_Set])
  then show ?thesis by (simp add: set_new_Set)
qed

lemma exact_match_iff: "exact_match ci ch \<longleftrightarrow> set (or_empty ci) = set (or_empty ch)"
proof
  assume "exact_match ci ch"
  then show "set (or_empty ci) = set (or_empty ch)"
    by (auto simp: exact_match_def Let_def has_def set_new_Set list_all_iff)
next
  assume "set (or_empty ci) = set (or_empty ch)"
  then show "exact_match ci ch"
    by (simp add: exact_match_def Let_def has_def set_new_Set list_all_iff length_new_Set)
qed

lemma gained_for_v2_mcq:
  "qtype q = Mcq \<Longrightarrow>
   gained_for_v2 (Some q) ans =
     Inr (case ans of None \<Rightarrow> 0
          | Some a \<Rightarrow> (case chosenIndices a of None \<Rightarrow> 0
                       | Some xs \<Rightarrow> if set xs = correct_set q then LEVEL_POINTS (level q) else 0))"
  by (cases ans)
     (auto simp: gained_for_v2_def get_prop_Some bind_js_Inr exact_match_iff correct_set_def
           split: option.splits)

lemma gained_for_v2_manual:
  "qtype q \<noteq> Mcq \<Longrightarrow>
   gained_for_v2 (Some q) ans =
     Inr (case ans of None \<Rightarrow> 0
          | Some a \<Rightarrow> if is_number (manualScore a) then number_of (manualScore a) else 0)"
  by (cases ans) (simp_all add: gained_for_v2_def get_prop_Some bind_js_Inr)

lemma gained_for_v2_total: "\<exists>g. gained_for_v2 (Some q) ans = Inr g"
  by (cases "qtype q = Mcq") (simp_all add: gained_for_v2_mcq gained_for_v2_manual)

lemma gained_for_v2_exact:
  assumes "qtype q = Mcq" and "correct_set q \<noteq> {}"
  shows "gained_for_v2 (Some q) ans =
           Inr (if chosen_set ans = correct_set q then LEVEL_POINTS (level q) else 0)"
proof (cases ans)
  case None
  with assms show ?thesis
    by (auto simp: gained_for_v2_mcq chosen_set_def)
next
  case (Some a)
  with assms show ?thesis
    by (cases "chosenIndices a") (auto simp: gained_for_v2_mcq chosen_set_def)
qed

lemma score_step_v2_absent:
  "find_question qs i = None \<Longrightarrow> score_step_v2 qs anss acc i = Inr acc"
  by (simp add: score_step_v2_def)

lemma score_step_v2_found:
  assumes "find_question qs i = Some q" and "gained_for_v2 (Some q) (obj_get anss i) = Inr g"
  shows "score_step_v2 qs anss acc i =
           Inr \<lparr>total_v2 = total_v2 acc + g,
                byIP_v2 = tally_set (ip q) (slot_add (slot_or_zero (tally_get (byIP_v2 acc) (ip q))) g)
                            (byIP_v2 acc),
                byLevel_v2 = obj_set (level q) (or_zero (obj_get (byLevel_v2 acc) (level q)) + g)
                               (byLevel_v2 acc)\<rparr>"
  using assms by (simp add: score_step_v2_def get_prop_Some bind_js_Inr)

lemma score_step_v2_ok: "\<exists>r. score_step_v2 qs anss acc i = Inr r"
proof (cases "find_question qs i")
  case None
  then show ?thesis by (simp add: score_step_v2_absent)
next
  case (Some q)
  obtain g where "gained_for_v2 (Some q) (obj_get anss i) = Inr g"
    using gained_for_v2_total by blast
  from score_step_v2_found [OF Some this] show ?thesis by blast
qed

lemma score_loop_v2_ok: "\<exists>r. score_loop_v2 qs anss acc bs = Inr r"
proof (induction bs arbitrary: acc)
  case Nil
  show ?case by simp
next
  case (Cons i bs)
  obtain r where "score_step_v2 qs anss acc i = Inr r"
    using score_step_v2_ok by blast
  with Cons.IH [of r] show ?case by simp
qed

lemma score_loop_v2_append:
  "score_loop_v2 qs anss acc (bs @ cs) =
     (case score_loop_v2 qs anss acc bs of Inl e \<Rightarrow> Inl e | Inr r \<Rightarrow> score_loop_v2 qs anss r cs)"
  by (induction bs arbitrary: acc) (simp_all split: sum.splits)

lemma score_v2_contribution:
  assumes q: "find_question qs i = Some q"
    and g: "gained_for_v2 (Some q) (obj_get anss i) = Inr g"
  shows "\<exists>r r'. scoreSummary_v2 qs anss bs = Inr r \<and> scoreSummary_v2 qs anss (bs @ [i]) = Inr r'
           \<and> total_v2 r' = total_v2 r + g"
proof -
  obtain r where r: "scoreSummary_v2 qs anss bs = Inr r"
    unfolding scoreSummary_v2_def using score_loop_v2_ok by blast
  have "scoreSummary_v2 qs anss (bs @ [i]) = score_step_v2 qs anss r i"
    using r by (simp add: scoreSummary_v2_def score_loop_v2_append split: sum.splits)
  with score_step_v2_found [OF q g, of r] r show ?thesis
    by simp
qed

lemma tally_sum_obj_set:
  "tally_sum m = Some T \<Longrightarrow>
   tally_sum (obj_set k (Numeric v) m)
     = Some (T - (case map_of m k of Some (Numeric a) \<Rightarrow> a | _ \<Rightarrow> 0) + v)"
proof (induction m arbitrary: T)
  case Nil
  then show ?case by simp
next
  case (Cons e m)
  obtain k' x where e: "e = (k', x)" by (cases e)
  show ?case
  proof (cases x)
    case (Numeric n)
    with Cons.prems e obtain T' where T': "tally_sum m = Some T'" "T = n + T'"
      by (auto split: option.splits)
    from Cons.IH [OF T'(1)] T' e Numeric show ?thesis
      by (simp split: option.splits slot.splits)
  next
    case NonNumeric
    with Cons.prems e show ?thesis by simp
  qed
qed

lemma tally_sum_map_of:
  "tally_sum m = Some T \<Longrightarrow> map_of m k = Some x \<Longrightarrow> \<exists>a. x = Numeric a"
proof (induction m arbitrary: T)
  case Nil
  then show ?case by simp
next
  case (Cons e m)
  obtain k' y where e: "e = (k', y)" by (cases e)
  with Cons show ?case
    by (cases y) (auto split: option.splits if_splits)
qed

lemma tally_step_ordinary:
  assumes "tally_sum m = Some T" and "t \<notin> set proto_keys"
  shows "tally_sum (tally_set t (slot_add (slot_or_zero (tally_get m t)) g) m) = Some (T + g)"
proof -
  from assms(2) have np: "t \<noteq> ''__proto__''"
    by (auto simp: proto_keys_def)
  show ?thesis
  proof (cases "map_of m t")
    case None
    with assms np tally_sum_obj_set [OF assms(1), of t g] show ?thesis
      by (simp add: tally_get_def tally_set_def)
  next
    case (Some x)
    then obtain a where a: "x = Numeric a"
      using tally_sum_map_of [OF assms(1)] by blast
    with Some assms np tally_sum_obj_set [OF assms(1), of t "a + g"] show ?thesis
      by (simp add: tally_get_def tally_set_def)
  qed
qed

lemma score_loop_v2_consistent:
  assumes "ordinary_topics qs bs"
    and "tally_sum (byIP_v2 acc) = Some (total_v2 acc)"
    and "sum_list (map snd (byLevel_v2 acc)) = total_v2 acc"
  shows "\<exists>r. score_loop_v2 qs anss acc bs = Inr r
           \<and> tally_sum (byIP_v2 r) = Some (total_v2 r)
           \<and> sum_list (map snd (byLevel_v2 r)) = total_v2 r"
  using assms
proof (induction bs arbitrary: acc)
  case Nil
  then show ?case by simp
next
  case (Cons i bs)
  from Cons.prems(1) have rest: "ordinary_topics qs bs"
    by (simp add: ordinary_topics_def)
  show ?case
  proof (cases "find_question qs i")
    case None
    with Cons.IH [OF rest Cons.prems(2,3)] show ?thesis
      by (simp add: score_step_v2_absent)
  next
    case (Some q)
    with Cons.prems(1) have t: "ip q \<notin> set proto_keys"
      by (simp add: ordinary_topics_def)
    obtain g where g: "gained_for_v2 (Some q) (obj_get anss i) = Inr g"
      using gained_for_v2_total by blast
    let ?r = "\<lparr>total_v2 = total_v2 acc + g,
                byIP_v2 = tally_set (ip q) (slot_add (slot_or_zero (tally_get (byIP_v2 acc) (ip q))) g)
                            (byIP_v2 acc),
                byLevel_v2 = obj_set (level q) (or_zero (obj_get (byLevel_v2 acc) (level q)) + g)
                               (byLevel_v2 acc)\<rparr>"
    have step: "score_step_v2 qs anss acc i = Inr ?r"
      by (rule score_step_v2_found [OF Some g])
    have a: "tally_sum (byIP_v2 ?r) = Some (total_v2 ?r)"
      using tally_step_ordinary [OF Cons.prems(2) t, of g] by simp
    have b: "sum_list (map snd (byLevel_v2 ?r)) = total_v2 ?r"
      using Cons.prems(3) by (simp add: sum_obj_set)
    from Cons.IH [OF rest a b] step show ?thesis
      by simp
  qed
qed

lemma summary_v2_consistent:
  "ordinary_topics qs bs \<Longrightarrow>
   \<exists>r. scoreSummary_v2 qs anss bs = Inr r
      \<and> tally_sum (byIP_v2 r) = Some (total_v2 r)
      \<and> sum_list (map snd (byLevel_v2 r)) = total_v2 r"
  unfolding scoreSummary_v2_def
  by (rule score_loop_v2_consistent) (simp_all add: score_init_v2_def)

lemma dispatch_toggle_no_fault:
  "offered s (ClickToggle i) \<Longrightarrow> dispatch s (ClickToggle i) \<noteq> Inl e"
proof -
  assume o: "offered s (ClickToggle i)"
  then obtain q where q: "find_question (questions s) i = Some q"
    using offered_toggle_found by blast
  show ?thesis
  proof (cases "inBasket s i")
    case True
    then show ?thesis by (simp add: toggle_remove)
  next
    case False
    with q show ?thesis by (simp add: toggle_add)
  qed
qed

lemma toggle_phase_v2: "toggleBasket_v2 s i = Inr (a, s') \<Longrightarrow> phase_v2 s' = phase_v2 s"
  by (auto simp: toggleBasket_v2_def bind_js_def get_prop_def Let_def
           split: if_splits sum.splits option.splits)

lemma phase_gating_v1:
  "phase (revealReferences s) = Confirm \<and> phase (finishAndShowScore s) = Finished
   \<and> phase (resetAll s) = Pick
   \<and> phase (snd (startQuiz s)) = (if basket s = [] then phase s else Running)
   \<and> (offered s ClickStart \<longleftrightarrow> phase s = Pick \<and> basket s \<noteq> [])
   \<and> (offered s ClickReveal \<longleftrightarrow> phase s = Running)
   \<and> (offered s ClickFinish \<longleftrightarrow> phase s = Confirm)
   \<and> offered s ClickReset
   \<and> (offered s e \<and> dispatch s e = Inr (a, s') \<and> phase s' \<noteq> phase s \<longrightarrow>
         (e = ClickReset \<and> phase s' = Pick)
       \<or> (e = ClickStart \<and> phase s = Pick \<and> phase s' = Running)
       \<or> (e = ClickReveal \<and> phase s = Running \<and> phase s' = Confirm)
       \<or> (e = ClickFinish \<and> phase s = Confirm \<and> phase s' = Finished))"
proof -
  have handlers: "phase (revealReferences s) = Confirm \<and> phase (finishAndShowScore s) = Finished
      \<and> phase (resetAll s) = Pick
      \<and> phase (snd (startQuiz s)) = (if basket s = [] then phase s else Running)"
    by (simp add: startQuiz_def resetAll_def revealReferences_def finishAndShowScore_def)
  have controls: "(offered s ClickStart \<longleftrightarrow> phase s = Pick \<and> basket s \<noteq> [])
      \<and> (offered s ClickReveal \<longleftrightarrow> phase s = Running)
      \<and> (offered s ClickFinish \<longleftrightarrow> phase s = Confirm) \<and> offered s ClickReset"
    by auto
  have only: "(e = ClickReset \<and> phase s' = Pick)
    \<or> (e = ClickStart \<and> phase s = Pick \<and> phase s' = Running)
    \<or> (e = ClickReveal \<and> phase s = Running \<and> phase s' = Confirm)
    \<or> (e = ClickFinish \<and> phase s = Confirm \<and> phase s' = Finished)"
    if "offered s e" and "dispatch s e = Inr (a, s')" and "phase s' \<noteq> phase s"
    using that
    by (cases e)
       (auto simp: startQuiz_def resetAll_def revealReferences_def finishAndShowScore_def
          setChoice_def setManual_def dest: toggle_phase split: if_splits)
  from handlers controls only show ?thesis by blast
qed

lemma phase_gating_v2:
  "phase_v2 (revealReferences_v2 u) = Confirm \<and> phase_v2 (finishAndShowScore_v2 u) = Finished
   \<and> phase_v2 (resetAll_v2 u) = Pick
   \<and> phase_v2 (snd (startQuiz_v2 u)) = (if basket_v2 u = [] then phase_v2 u else Running)
   \<and> (offered_v2 u PressStart \<longleftrightarrow> phase_v2 u = Pick \<and> basket_v2 u \<noteq> [])
   \<and> (offered_v2 u PressReveal \<longleftrightarrow> phase_v2 u = Running)
   \<and> (offered_v2 u PressFinish \<longleftrightarrow> phase_v2 u = Confirm)
   \<and> (offered_v2 u PressReset \<longleftrightarrow> phase_v2 u \<noteq> Pick)
   \<and> (offered_v2 u p \<and> dispatch_v2 u p = Inr (b, u') \<and> phase_v2 u' \<noteq> phase_v2 u \<longrightarrow>
         (p = PressReset \<and> phase_v2 u' = Pick)
       \<or> (p = PressStart \<and> phase_v2 u = Pick \<and> phase_v2 u' = Running)
       \<or> (p = PressReveal \<and> phase_v2 u = Running \<and> phase_v2 u' = Confirm)
       \<or> (p = PressFinish \<and> phase_v2 u = Confirm \<and> phase_v2 u' = Finished))"
proof -
  have handlers: "phase_v2 (revealReferences_v2 u) = Confirm
      \<and> phase_v2 (finishAndShowScore_v2 u) = Finished
      \<and> phase_v2 (resetAll_v2 u) = Pick
      \<and> phase_v2 (snd (startQuiz_v2 u)) = (if basket_v2 u = [] then phase_v2 u else Running)"
    by (simp add: startQuiz_v2_def resetAll_v2_def revealReferences_v2_def finishAndShowScore_v2_def)
  have controls: "(offered_v2 u PressStart \<longleftrightarrow> phase_v2 u = Pick \<and> basket_v2 u \<noteq> [])
      \<and> (offered_v2 u PressReveal \<longleftrightarrow> phase_v2 u = Running)
      \<and> (offered_v2 u PressFinish \<longleftrightarrow> phase_v2 u = Confirm)
      \<and> (offered_v2 u PressReset \<longleftrightarrow> phase_v2 u \<noteq> Pick)"
    by auto
  have only: "(p = PressReset \<and> phase_v2 u' = Pick)
    \<or> (p = PressStart \<and> phase_v2 u = Pick \<and> phase_v2 u' = Running)
    \<or> (p = PressReveal \<and> phase_v2 u = Running \<and> phase_v2 u' = Confirm)
    \<or> (p = PressFinish \<and> phase_v2 u = Confirm \<and> phase_v2 u' = Finished)"
    if "offered_v2 u p" and "dispatch_v2 u p = Inr (b, u')" and "phase_v2 u' \<noteq> phase_v2 u"
    using that
    by (cases p)
       (auto simp: startQuiz_v2_def resetAll_v2_def revealReferences_v2_def
          finishAndShowScore_v2_def toggleChoice_def setChosen_def setManual_v2_def Let_def
          dest: toggle_phase_v2 split: if_splits option.splits)
  from handlers controls only show ?thesis by blast
qed

text \<open>The definitions a concrete run unfolds.\<close>

lemmas eval_defs = scoreSummary_def score_init_def score_step_def find_question_def gained_for_def
  bind_js_def get_prop_def add_level_def obj_get_def demo_bank_def demo_mcq_def demo_short_def
  chose_def graded_def perIPCounts_def perIP_step_def

lemmas run_defs = app_init_def after_toggle_def toggleBasket_def inBasket_def topic_count_def
  startQuiz_def resetAll_def revealReferences_def finishAndShowScore_def visibleQuestions_def

lemmas eval_v2_defs = scoreSummary_v2_def score_init_v2_def score_step_v2_def find_question_def
  gained_for_v2_def bind_js_def get_prop_def obj_get_def exact_match_def has_def
  tally_get_def tally_set_def proto_keys_def
  demo_multi_def demo_short_v2_def demo_bank_v2_def picked_def graded_v2_def

section \<open>Properties of scoring\<close>

text \<open>
  C1. In the later revision, appending a found multiple-choice question \<open>i\<close> with at
  least one correct index to any basket adds to the total the points of its level
  (which are positive) when the set of chosen indices of its answer record equals the
  set of its correct indices, and adds 0 in every other case: a strict subset, a strict
  superset, any other set, an empty array, or no record at all. The earlier revision
  has single-choice questions only and compares the one chosen index with the one
  correct index (\<open>gained_for_mcq\<close>).
\<close>

theorem exact_match_scoring:
  assumes "find_question qs i = Some q" and "qtype q = Mcq" and "correct_set q \<noteq> {}"
  shows "\<exists>r r'. scoreSummary_v2 qs anss bs = Inr r \<and> scoreSummary_v2 qs anss (bs @ [i]) = Inr r'
           \<and> total_v2 r' = total_v2 r
                + (if chosen_set (obj_get anss i) = correct_set q then LEVEL_POINTS (level q) else 0)
           \<and> 0 < LEVEL_POINTS (level q)"
proof -
  have "0 < LEVEL_POINTS (level q)"
    by (cases "level q") simp_all
  with score_v2_contribution [OF assms(1) gained_for_v2_exact [OF assms(2,3)], of anss bs]
  show ?thesis by blast
qed

theorem exact_match_scoring_witness:
  "scoreSummary_v2 demo_bank_v2 [(''m1'', picked [0, 2])] [''m1'']
     = Inr \<lparr>total_v2 = 2, byIP_v2 = [(''X'', Numeric 2)],
            byLevel_v2 = [(La, 0), (Lb, 2), (Lc, 0), (Ls, 0)]\<rparr>
   \<and> scoreSummary_v2 demo_bank_v2 [(''m1'', picked [2, 0])] [''m1'']
     = Inr \<lparr>total_v2 = 2, byIP_v2 = [(''X'', Numeric 2)],
            byLevel_v2 = [(La, 0), (Lb, 2), (Lc, 0), (Ls, 0)]\<rparr>
   \<and> scoreSummary_v2 demo_bank_v2 [(''m1'', picked [0])] [''m1'']
     = Inr \<lparr>total_v2 = 0, byIP_v2 = [(''X'', Numeric 0)],
            byLevel_v2 = [(La, 0), (Lb, 0), (Lc, 0), (Ls, 0)]\<rparr>
   \<and> scoreSummary_v2 demo_bank_v2 [(''m1'', picked [0, 1, 2])] [''m1'']
     = Inr \<lparr>total_v2 = 0, byIP_v2 = [(''X'', Numeric 0)],
            byLevel_v2 = [(La, 0), (Lb, 0), (Lc, 0), (Ls, 0)]\<rparr>
   \<and> scoreSummary_v2 demo_bank_v2 [(''m1'', picked [])] [''m1'']
     = Inr \<lparr>total_v2 = 0, byIP_v2 = [(''X'', Numeric 0)],
            byLevel_v2 = [(La, 0), (Lb, 0), (Lc, 0), (Ls, 0)]\<rparr>
   \<and> scoreSummary_v2 demo_bank_v2 ([] :: (string \<times> answer_v2) list) [''m1'']
     = Inr \<lparr>total_v2 = 0, byIP_v2 = [(''X'', Numeric 0)],
            byLevel_v2 = [(La, 0), (Lb, 0), (Lc, 0), (Ls, 0)]\<rparr>"
proof -
  have f: "find_question demo_bank_v2 ''m1'' = Some demo_multi"
    by (simp add: eval_v2_defs)
  have t: "qtype demo_multi = Mcq"
    by (simp add: demo_multi_def)
  have c: "correct_set demo_multi \<noteq> {}"
    by (simp add: correct_set_def demo_multi_def)
  show ?thesis
    using exact_match_scoring [OF f t c, of "[(''m1'', picked [0, 2])]" "[]"]
    by (simp add: eval_v2_defs)
qed

text \<open>
  C7. Appending a found question that is not multiple-choice adds to the total and to
  the \<^verbatim>\<open>byLevel\<close> entry of its level exactly the record's \<^verbatim>\<open>manualScore\<close> when that is a
  number, and 0 when there is no record or the field is not a number; the summary is
  computed without a fault for every basket, bank and answer map.
\<close>

theorem manual_score_passthrough:
  assumes "find_question qs i = Some q" and "qtype q \<noteq> Mcq"
  shows "\<exists>r r'. scoreSummary qs anss bs = Inr r \<and> scoreSummary qs anss (bs @ [i]) = Inr r'
           \<and> total_pts r' = total_pts r
                + (case obj_get anss i of None \<Rightarrow> 0
                   | Some a \<Rightarrow> (case manualScore a of JNumber n \<Rightarrow> n | _ \<Rightarrow> 0))
           \<and> obj_get (byLevel r') (level q) = Some (or_zero (obj_get (byLevel r) (level q))
                + (case obj_get anss i of None \<Rightarrow> 0
                   | Some a \<Rightarrow> (case manualScore a of JNumber n \<Rightarrow> n | _ \<Rightarrow> 0)))"
proof -
  have "gained_for (Some q) (obj_get anss i) =
          Inr (case obj_get anss i of None \<Rightarrow> 0
               | Some a \<Rightarrow> (case manualScore a of JNumber n \<Rightarrow> n | _ \<Rightarrow> 0))"
    using assms(2) by (simp add: gained_for_manual split: option.splits jsval.splits)
  from score_contribution [OF assms(1) this, of bs] show ?thesis
    by blast
qed

theorem manual_score_passthrough_witness:
  "scoreSummary demo_bank [(''z1'', graded (JNumber 3))] [''z1'']
     = Inr \<lparr>total_pts = 3, byIP = [(''Z'', 3)], byLevel = [(La, 0), (Lb, 0), (Lc, 0), (Ls, 3)]\<rparr>
   \<and> scoreSummary demo_bank [(''z1'', graded (JString ''3''))] [''z1'']
     = Inr \<lparr>total_pts = 0, byIP = [(''Z'', 0)], byLevel = [(La, 0), (Lb, 0), (Lc, 0), (Ls, 0)]\<rparr>
   \<and> scoreSummary demo_bank [] [''z1'']
     = Inr \<lparr>total_pts = 0, byIP = [(''Z'', 0)], byLevel = [(La, 0), (Lb, 0), (Lc, 0), (Ls, 0)]\<rparr>"
proof -
  have f: "find_question demo_bank ''z1'' = Some (demo_short ''z1'' ''Z'' Ls)"
    by (simp add: eval_defs)
  have t: "qtype (demo_short ''z1'' ''Z'' Ls) \<noteq> Mcq"
    by (simp add: demo_short_def)
  show ?thesis
    using manual_score_passthrough [OF f t, of "[(''z1'', graded (JNumber 3))]" "[]"]
    by (simp add: eval_defs)
qed

text \<open>
  C6. A basket id whose question is absent from the bank is skipped by
  \<^verbatim>\<open>scoreSummary\<close> and by \<^verbatim>\<open>perIPCounts\<close>: wherever it stands in the basket, both
  results are those of the basket without it, and both are computed without a fault.
\<close>

theorem absent_question_skipped:
  assumes "find_question qs i = None"
  shows "scoreSummary qs anss (bs @ i # cs) = scoreSummary qs anss (bs @ cs)
       \<and> perIPCounts qs (bs @ i # cs) = perIPCounts qs (bs @ cs)
       \<and> (\<exists>r. scoreSummary qs anss (bs @ i # cs) = Inr r)
       \<and> (\<exists>m. perIPCounts qs (bs @ i # cs) = Inr m)"
proof -
  have "\<exists>r. scoreSummary qs anss (bs @ i # cs) = Inr r"
    using scoreSummary_ok by blast
  moreover have "\<exists>m. perIPCounts qs (bs @ i # cs) = Inr m"
    unfolding perIPCounts_def by (rule perIP_loop_ok)
  ultimately show ?thesis
    using assms by (simp add: scoreSummary_def perIPCounts_def score_loop_skip perIP_loop_skip)
qed

theorem absent_question_skipped_witness:
  "find_question demo_bank ''gone'' = None
   \<and> scoreSummary demo_bank [(''x1'', chose 1), (''gone'', chose 1)] [''x1'', ''gone'', ''y1'']
       = scoreSummary demo_bank [(''x1'', chose 1), (''gone'', chose 1)] [''x1'', ''y1'']
   \<and> perIPCounts demo_bank [''x1'', ''gone'', ''y1''] = Inr [(''X'', 1), (''Y'', 1)]"
proof -
  have f: "find_question demo_bank ''gone'' = None"
    by (simp add: eval_defs)
  show ?thesis
    using absent_question_skipped [OF f, of "[(''x1'', chose 1), (''gone'', chose 1)]" "[''x1'']" "[''y1'']"]
    by (simp add: eval_defs)
qed

text \<open>
  C9. \<^verbatim>\<open>byLevel\<close> of every score summary has an entry for each of the four level
  tags: its keys are \<open>a, b, c, s\<close>, whatever the basket holds.
\<close>

theorem byLevel_all_levels:
  "\<exists>r. scoreSummary qs anss bs = Inr r \<and> map fst (byLevel r) = [La, Lb, Lc, Ls]
       \<and> (\<forall>l. \<exists>v. obj_get (byLevel r) l = Some v)"
proof -
  obtain r where r: "scoreSummary qs anss bs = Inr r" "summary_ok r"
    using scoreSummary_ok by blast
  then have lk: "level_keys (byLevel r)" by (simp add: summary_ok_def)
  then have "map fst (byLevel r) = [La, Lb, Lc, Ls]" by (simp add: level_keys_def)
  moreover have "\<forall>l. \<exists>v. obj_get (byLevel r) l = Some v"
    using level_keys_get [OF lk] by blast
  ultimately show ?thesis using r(1) by (intro exI [of _ r]) simp
qed

theorem byLevel_all_levels_witness:
  "scoreSummary demo_bank [(''z1'', graded (JNumber 4))] [''z1'']
     = Inr \<lparr>total_pts = 4, byIP = [(''Z'', 4)], byLevel = [(La, 0), (Lb, 0), (Lc, 0), (Ls, 4)]\<rparr>
   \<and> scoreSummary demo_bank [] []
     = Inr \<lparr>total_pts = 0, byIP = [], byLevel = [(La, 0), (Lb, 0), (Lc, 0), (Ls, 0)]\<rparr>"
  using byLevel_all_levels [of demo_bank "[(''z1'', graded (JNumber 4))]" "[''z1'']"]
  by (simp add: eval_defs)

text \<open>
  C10. Every awarded amount is meant to be added to the total, to the topic's entry of
  \<^verbatim>\<open>byIP\<close> and to the level's entry of \<^verbatim>\<open>byLevel\<close>, so that both tallies sum to the
  total. For topics with ordinary names they do (\<open>summary_v2_consistent\<close>). For a
  question whose topic is named \<^verbatim>\<open>__proto__\<close> the line
  \<^verbatim>\<open>byIP[q.ip] = (byIP[q.ip] || 0) + gained\<close>, the same in both revisions, reads the
  prototype object and its write is swallowed: a short-answer question at level B graded
  2 gives total 2 and \<^verbatim>\<open>byLevel.b\<close> 2 while \<^verbatim>\<open>byIP\<close> stays empty.
\<close>

theorem proto_topic_inconsistent:
  "scoreSummary_v2
     [\<lparr>qid = ''p1'', ip = ''__proto__'', qtype = Short, level = Lb, options = [],
       correctIndex = JUndefined, correctIndices = None, isMultiChoice = False\<rparr>]
     [(''p1'', \<lparr>choiceIndex = JUndefined, manualScore = JNumber 2, chosenIndices = None\<rparr>)]
     [''p1'']
   = Inr \<lparr>total_v2 = 2, byIP_v2 = [], byLevel_v2 = [(La, 0), (Lb, 2), (Lc, 0), (Ls, 0)]\<rparr>
   \<and> tally_sum [] \<noteq> Some 2"
  by (simp add: eval_v2_defs)

theorem proto_topic_inconsistent_witness:
  "\<exists>r. scoreSummary_v2 [demo_short_v2 ''p1'' ''__proto__'' Lb] [(''p1'', graded_v2 2)] [''p1''] = Inr r
       \<and> tally_sum (byIP_v2 r) \<noteq> Some (total_v2 r)
       \<and> sum_list (map snd (byLevel_v2 r)) = total_v2 r"
  using proto_topic_inconsistent by (simp add: demo_short_v2_def graded_v2_def)

section \<open>Properties of the basket\<close>

text \<open>
  C2. Start from any state with an empty basket and run any sequence of
  \<^verbatim>\<open>toggleBasket\<close> calls over a fixed question bank, each in the state the previous one
  left (a call that was rejected, or that threw, leaves the basket as it was). After
  every call the basket holds at most 5 ids and, for every topic \<open>t\<close>, at most 2 of them
  are questions of topic \<open>t\<close>.
\<close>

theorem basket_caps:
  assumes "basket s = []"
  shows "length (basket (toggles s is)) \<le> 5
       \<and> topic_count (questions s) (basket (toggles s is)) t \<le> 2"
proof -
  from assms have "caps s" by (simp add: caps_def topic_count_def)
  from toggles_caps [OF this, of "is"]
  have c: "caps (toggles s is)" and q: "questions (toggles s is) = questions s"
    by simp_all
  from c have "length (basket (toggles s is)) \<le> 5"
    by (simp add: caps_def)
  moreover from c have "topic_count (questions (toggles s is)) (basket (toggles s is)) t \<le> 2"
    by (simp add: caps_def)
  ultimately show ?thesis
    by (simp add: q)
qed


theorem basket_caps_witness:
  "basket (toggles (app_init demo_bank) [''x1'', ''x2'', ''x3'', ''y1'', ''gone'', ''y2'', ''z1'', ''z2'', ''x1'', ''z2''])
     = [''x2'', ''y1'', ''y2'', ''z1'', ''z2'']
   \<and> topic_count demo_bank [''x2'', ''y1'', ''y2'', ''z1'', ''z2''] ''Y'' = 2"
proof -
  have e: "basket (app_init demo_bank) = []"
    by (simp add: app_init_def)
  show ?thesis
    using basket_caps [OF e, of "[''x1'', ''x2'', ''x3'', ''y1'', ''gone'', ''y2'', ''z1'', ''z2'', ''x1'', ''z2'']" "''Y''"]
    by (simp add: eval_defs run_defs)
qed

text \<open>
  C3. In the later revision \<^verbatim>\<open>toggleBasket\<close>, called with an id that is not in the
  basket and whose question is absent from the bank, returns at its existence check
  \<^verbatim>\<open>if (!q) return\<close>: no fault, no alert, and the state, the basket included, is
  unchanged, in every phase. (The earlier revision has no such check in the handler;
  there the render passes only ids of listed questions, \<open>dispatch_toggle_no_fault\<close>.)
\<close>

theorem toggle_absent_noop:
  assumes "i \<notin> set (basket_v2 s)" and "find_question (questions_v2 s) i = None"
  shows "toggleBasket_v2 s i = Inr (None, s)"
  using assms by (simp add: toggleBasket_v2_def inBasket_v2_def)

theorem toggle_absent_noop_witness:
  "toggleBasket_v2 ((app_init_v2 demo_bank_v2)\<lparr>basket_v2 := [''m1'']\<rparr>) ''gone''
     = Inr (None, (app_init_v2 demo_bank_v2)\<lparr>basket_v2 := [''m1'']\<rparr>)"
proof -
  have a: "''gone'' \<notin> set (basket_v2 ((app_init_v2 demo_bank_v2)\<lparr>basket_v2 := [''m1'']\<rparr>))"
    by simp
  have b: "find_question (questions_v2 ((app_init_v2 demo_bank_v2)\<lparr>basket_v2 := [''m1'']\<rparr>)) ''gone'' = None"
    by (simp add: app_init_v2_def eval_v2_defs)
  from toggle_absent_noop [OF a b] show ?thesis .
qed

section \<open>Properties of the phase\<close>

text \<open>
  C5. With an empty basket \<^verbatim>\<open>startQuiz\<close> raises the "choose questions first" alert and
  returns the state untouched (phase, basket, answers and all else); with a non-empty
  basket in the picking phase it raises no alert and the phase becomes running, basket
  and answers unchanged.
\<close>

theorem start_guard:
  "(basket s = [] \<longrightarrow> startQuiz s = (Some AlertChooseFirst, s))
   \<and> (basket s \<noteq> [] \<and> phase s = Pick \<longrightarrow>
        fst (startQuiz s) = None \<and> phase (snd (startQuiz s)) = Running
        \<and> basket (snd (startQuiz s)) = basket s \<and> answers (snd (startQuiz s)) = answers s)"
  by (simp add: startQuiz_def)

theorem start_guard_witness:
  "startQuiz (app_init demo_bank) = (Some AlertChooseFirst, app_init demo_bank)
   \<and> phase (snd (startQuiz ((app_init demo_bank)\<lparr>basket := [''x1'']\<rparr>))) = Running"
  using start_guard [of "app_init demo_bank"] start_guard [of "(app_init demo_bank)\<lparr>basket := [''x1'']\<rparr>"]
  by (simp add: app_init_def)

text \<open>
  The specification lets no operation change the phase when it is invoked outside its
  source phase. In both revisions the handlers do: \<^verbatim>\<open>revealReferences\<close> invoked in the
  picking phase moves the session to confirming.
\<close>

theorem unguarded_reveal_counterexample:
  "phase (app_init demo_bank) = Pick
   \<and> phase (revealReferences (app_init demo_bank)) = Confirm
   \<and> phase_v2 (app_init_v2 demo_bank_v2) = Pick
   \<and> phase_v2 (revealReferences_v2 (app_init_v2 demo_bank_v2)) = Confirm"
  by (simp add: app_init_def revealReferences_def app_init_v2_def revealReferences_v2_def)

text \<open>
  C4, as the code has it, in the earlier revision (state \<open>s\<close>, control \<open>e\<close>) and in the
  later one (state \<open>u\<close>, control \<open>p\<close>). The handlers do not look at the phase: from any
  phase \<^verbatim>\<open>revealReferences\<close> sets it to confirming, \<^verbatim>\<open>finishAndShowScore\<close> to finished and
  \<^verbatim>\<open>resetAll\<close> to picking, and \<^verbatim>\<open>startQuiz\<close> sets it to running when the basket is not
  empty and leaves it otherwise. The discipline lies in the render: the start button is
  enabled exactly when the phase is picking and the basket is not empty, the reveal
  button is rendered exactly when the phase is running, the finish button exactly when
  it is confirming; the reset button is rendered always in the earlier revision and
  exactly when the phase is not picking in the later one. Of the controls offered in a
  state, the only ones whose press changes the phase are reset (to picking), start
  (picking to running), reveal (running to confirming) and finish (confirming to
  finished); toggling, answering, grading and navigation leave the phase as it is.
\<close>

theorem phase_gating:
  "(phase (revealReferences s) = Confirm \<and> phase (finishAndShowScore s) = Finished
   \<and> phase (resetAll s) = Pick
   \<and> phase (snd (startQuiz s)) = (if basket s = [] then phase s else Running)
   \<and> (offered s ClickStart \<longleftrightarrow> phase s = Pick \<and> basket s \<noteq> [])
   \<and> (offered s ClickReveal \<longleftrightarrow> phase s = Running)
   \<and> (offered s ClickFinish \<longleftrightarrow> phase s = Confirm)
   \<and> offered s ClickReset
   \<and> (offered s e \<and> dispatch s e = Inr (a, s') \<and> phase s' \<noteq> phase s \<longrightarrow>
         (e = ClickReset \<and> phase s' = Pick)
       \<or> (e = ClickStart \<and> phase s = Pick \<and> phase s' = Running)
       \<or> (e = ClickReveal \<and> phase s = Running \<and> phase s' = Confirm)
       \<or> (e = ClickFinish \<and> phase s = Confirm \<and> phase s' = Finished)))
   \<and> (phase_v2 (revealReferences_v2 u) = Confirm \<and> phase_v2 (finishAndShowScore_v2 u) = Finished
   \<and> phase_v2 (resetAll_v2 u) = Pick
   \<and> phase_v2 (snd (startQuiz_v2 u)) = (if basket_v2 u = [] then phase_v2 u else Running)
   \<and> (offered_v2 u PressStart \<longleftrightarrow> phase_v2 u = Pick \<and> basket_v2 u \<noteq> [])
   \<and> (offered_v2 u PressReveal \<longleftrightarrow> phase_v2 u = Running)
   \<and> (offered_v2 u PressFinish \<longleftrightarrow> phase_v2 u = Confirm)
   \<and> (offered_v2 u PressReset \<longleftrightarrow> phase_v2 u \<noteq> Pick)
   \<and> (offered_v2 u p \<and> dispatch_v2 u p = Inr (b, u') \<and> phase_v2 u' \<noteq> phase_v2 u \<longrightarrow>
         (p = PressReset \<and> phase_v2 u' = Pick)
       \<or> (p = PressStart \<and> phase_v2 u = Pick \<and> phase_v2 u' = Running)
       \<or> (p = PressReveal \<and> phase_v2 u = Running \<and> phase_v2 u' = Confirm)
       \<or> (p = PressFinish \<and> phase_v2 u = Confirm \<and> phase_v2 u' = Finished)))"
  using phase_gating_v1 [of s e a s'] phase_gating_v2 [of u p b u'] by (rule conjI)

theorem phase_gating_witness:
  "offered ((app_init demo_bank)\<lparr>basket := [''x1'']\<rparr>) ClickStart
   \<and> dispatch ((app_init demo_bank)\<lparr>basket := [''x1'']\<rparr>) ClickStart
       = Inr (None, (app_init demo_bank)\<lparr>basket := [''x1''], phase := Running, tab := Quiz\<rparr>)
   \<and> \<not> offered ((app_init demo_bank)\<lparr>basket := [''x1'']\<rparr>) ClickReveal
   \<and> offered_v2 ((app_init_v2 demo_bank_v2)\<lparr>basket_v2 := [''m1''], phase_v2 := Running\<rparr>) PressReveal
   \<and> dispatch_v2 ((app_init_v2 demo_bank_v2)\<lparr>basket_v2 := [''m1''], phase_v2 := Running\<rparr>) PressReveal
       = Inr (None, (app_init_v2 demo_bank_v2)\<lparr>basket_v2 := [''m1''], phase_v2 := Confirm\<rparr>)
   \<and> \<not> offered_v2 ((app_init_v2 demo_bank_v2)\<lparr>basket_v2 := [''m1''], phase_v2 := Running\<rparr>) PressFinish
   \<and> \<not> offered_v2 (app_init_v2 demo_bank_v2) PressReset"
  using phase_gating [of "(app_init demo_bank)\<lparr>basket := [''x1'']\<rparr>" ClickStart None
      "(app_init demo_bank)\<lparr>basket := [''x1''], phase := Running, tab := Quiz\<rparr>"
      "(app_init_v2 demo_bank_v2)\<lparr>basket_v2 := [''m1''], phase_v2 := Running\<rparr>" PressReveal None
      "(app_init_v2 demo_bank_v2)\<lparr>basket_v2 := [''m1''], phase_v2 := Confirm\<rparr>"]
  by (simp add: app_init_def startQuiz_def app_init_v2_def revealReferences_v2_def)

section \<open>Reset\<close>

text \<open>
  C8. \<^verbatim>\<open>resetAll\<close>, from any state, empties the basket, clears every answer record
  and sets the phase to picking.
\<close>

theorem resetAll_clears:
  "basket (resetAll s) = [] \<and> answers (resetAll s) = [] \<and> phase (resetAll s) = Pick"
  by (simp add: resetAll_def)

theorem resetAll_clears_witness:
  "resetAll ((app_init demo_bank)\<lparr>basket := [''x1''], phase := Finished,
                                    answers := [(''x1'', chose 1)], tab := Quiz\<rparr>)
     = app_init demo_bank"
  using resetAll_clears [of "(app_init demo_bank)\<lparr>basket := [''x1''], phase := Finished,
                                    answers := [(''x1'', chose 1)], tab := Quiz\<rparr>"]
  by (simp add: resetAll_def app_init_def)

end
